theory Spec2Isabelle
  imports Complex_Main "HOL-Library.Sublist"
begin

section \<open>Saros SDK examples: retry helpers and arithmetic helpers\<close>

text \<open>
  The repository holds example scripts and tutorial snippets in TypeScript. This theory
  embeds the helpers that carry logic of their own:
  \<^item> \<open>calculatePositionParams\<close> (DLMM position example),
  \<^item> \<open>calculateDynamicSlippage\<close> (troubleshooting guide),
  \<^item> the retry loops \<open>executeSwapWithRetry\<close>, \<open>sendAndConfirmWithRetry\<close> and
    \<open>swapWithRetry\<close>.

  TypeScript's \<open>number\<close> is an IEEE double. A count of attempts is modelled as \<open>int\<close>; a
  bin identifier is a whole number, modelled as \<open>int\<close> with the rounding of double
  arithmetic written out; percentages are modelled as \<open>real\<close> (exact arithmetic).
\<close>

subsection \<open>Whole numbers in double arithmetic\<close>

text \<open>
  A double has a significand of 53 bits: every whole number up to \<open>2^53 = 9007199254740992\<close>
  in magnitude is a double, and above that only the multiples of a power of two are. The
  sum or difference of two whole doubles is the exact result rounded to the nearest double,
  a tie going to the one with the even significand. \<open>ulp n\<close> is the distance between the
  doubles around \<open>n\<close>, \<open>toDouble\<close> the rounding. (Overflow to infinity lies beyond
  \<open>2^1024\<close> and is not reached by adding 20 to a finite double.)
\<close>

function ulp :: "nat \<Rightarrow> nat" where
  "ulp n = (if n < 9007199254740992 then 1 else 2 * ulp (n div 2))"
  by pat_completeness auto
termination
  by (relation "measure (\<lambda>n. n)") auto

declare ulp.simps [simp del]

definition roundTiesToEven :: "nat \<Rightarrow> nat" where
  "roundTiesToEven n =
     (let u = ulp n; q = n div u; r = n mod u
      in if 2 * r < u \<or> (2 * r = u \<and> even q) then q * u else (q + 1) * u)"

definition toDouble :: "int \<Rightarrow> int" where
  "toDouble x =
     (if x < 0 then - int (roundTiesToEven (nat (- x))) else int (roundTiesToEven (nat x)))"


subsection \<open>calculatePositionParams\<close>

text \<open>
  \<^verbatim>\<open>strategy: 'tight' | 'medium' | 'wide' = 'medium'\<close>: a union of three string literals,
  with a default that applies when the argument is left out (\<open>None\<close>). \<open>activeBin\<close> is a
  whole double; \<open>activeBin - range\<close> and \<open>activeBin + range\<close> are double arithmetic.
\<close>

datatype strategy = tight | medium | wide

record position_range =
  lowerBin :: int
  upperBin :: int

fun ranges :: "strategy \<Rightarrow> int" where
  "ranges tight = 5"
| "ranges medium = 10"
| "ranges wide = 20"

definition calculatePositionParams :: "int \<Rightarrow> int \<Rightarrow> strategy option \<Rightarrow> position_range" where
  "calculatePositionParams activeBin binStep strategy_arg =
     (let strategy = (case strategy_arg of None \<Rightarrow> medium | Some s \<Rightarrow> s);
          range = ranges strategy
      in \<lparr> lowerBin = toDouble (activeBin - range),
           upperBin = toDouble (activeBin + range) \<rparr>)"

subsection \<open>calculateDynamicSlippage\<close>

text \<open>
  The source works on percentages as \<open>number\<close>; the model computes with exact reals.
  \<open>Math.min\<close> is \<open>min\<close>.
\<close>

definition calculateDynamicSlippage :: "real \<Rightarrow> real \<Rightarrow> real" where
  "calculateDynamicSlippage priceImpact volatility =
     (let slippage0 = 0.5;
          slippage1 = (if priceImpact > 2 then slippage0 + 0.5 else slippage0);
          slippage2 = (if priceImpact > 5 then slippage1 + 1.0 else slippage1);
          slippage3 = slippage2 + volatility * 0.1
      in min slippage3 5.0)"

subsection \<open>Errors, events and the external operation\<close>

text \<open>
  The retry helpers wrap a call into the SDK or the RPC client, which is not part of the
  repository. The call is a parameter of the model: an oracle that gives the outcome of
  an invocation from the number of invocations made before it in this run and from the
  argument the helper passes (the slippage). \<open>Inl\<close> is a thrown error, \<open>Inr\<close> a returned
  value. Thrown values are \<open>Error\<close> objects with a \<open>message\<close>, as the source's
  \<^verbatim>\<open>error as Error\<close> and \<^verbatim>\<open>error.message\<close> take them to be.

  Everything a helper does besides returning is recorded, in order, as a list of events:
  \<^item> \<open>Call s\<close>: \<open>executeSwap\<close> invoked with \<open>slippageBps = s\<close>;
  \<^item> \<open>Send\<close>: \<open>sendAndConfirmTransaction\<close> invoked;
  \<^item> \<open>Quote s\<close>: \<open>sdk.getSwapQuote\<close> invoked with \<open>slippageBps = s\<close>; \<open>Swap\<close>: \<open>sdk.swap\<close>
    invoked;
  \<^item> \<open>Wait ms\<close>: the \<open>setTimeout\<close> promise awaited;
  \<^item> \<open>LogAttempt\<close>, \<open>LogFailed\<close>, \<open>LogWaiting\<close>, \<open>LogRetry\<close>: the \<open>console.log\<close> lines, with
    the values they print.

  The default \<open>maxRetries = 3\<close> is what a caller gets who leaves the argument out; the
  model takes the value of \<open>maxRetries\<close> as given, any integer.
\<close>

datatype js_error = Error (message: string)

datatype event =
    LogAttempt int int
  | Call int
  | LogFailed int string
  | LogWaiting
  | Wait nat
  | Send
  | Quote real
  | Swap
  | LogRetry real

text \<open>Decimal rendering of an integer, as a template literal prints a whole number.\<close>

fun show_nat :: "nat \<Rightarrow> string" where
  "show_nat n =
     (if n < 10 then [''0123456789'' ! n]
      else show_nat (n div 10) @ [''0123456789'' ! (n mod 10)])"

declare show_nat.simps [simp del]

definition show_int :: "int \<Rightarrow> string" where
  "show_int i = (if i < 0 then CHR ''-'' # show_nat (nat (- i)) else show_nat (nat i))"

subsection \<open>executeSwapWithRetry\<close>

text \<open>
  \<^verbatim>\<open>new Error(`All ${maxRetries} attempts failed. Last error: ${lastError?.message}`)\<close>:
  with \<open>lastError\<close> still \<open>null\<close> the optional chain yields \<open>undefined\<close>, printed as such.
\<close>

definition retriesExhausted :: "int \<Rightarrow> js_error option \<Rightarrow> js_error" where
  "retriesExhausted maxRetries lastError =
     Error (''All '' @ show_int maxRetries @ '' attempts failed. Last error: '' @
            (case lastError of None \<Rightarrow> ''undefined'' | Some e \<Rightarrow> message e))"

text \<open>
  The \<open>for\<close> loop from the value of \<open>attempt\<close> on; \<open>n\<close> counts the invocations of
  \<open>executeSwap\<close> made so far, \<open>lastError\<close> is the loop's variable of that name.
\<close>

function executeSwapWithRetry_loop ::
  "(nat \<Rightarrow> int \<Rightarrow> js_error + 'r) \<Rightarrow> int \<Rightarrow> int \<Rightarrow> nat \<Rightarrow> js_error option
     \<Rightarrow> (js_error + 'r) \<times> event list" where
  "executeSwapWithRetry_loop executeSwap maxRetries attempt n lastError =
     (if attempt \<le> maxRetries then
        (let slippageBps = 50 + (attempt - 1) * 25 in
         case executeSwap n slippageBps of
           Inr signature \<Rightarrow> (Inr signature, [LogAttempt attempt maxRetries, Call slippageBps])
         | Inl error \<Rightarrow>
             (case executeSwapWithRetry_loop executeSwap maxRetries (attempt + 1) (Suc n)
                     (Some error) of
                (outcome, events) \<Rightarrow>
                  (outcome,
                   [LogAttempt attempt maxRetries, Call slippageBps,
                    LogFailed attempt (message error)]
                   @ (if attempt < maxRetries then [LogWaiting, Wait 2000] else [])
                   @ events)))
      else (Inl (retriesExhausted maxRetries lastError), []))"
  by pat_completeness auto
termination
  by (relation "measure (\<lambda>(executeSwap, maxRetries, attempt, n, lastError).
                   nat (maxRetries + 1 - attempt))") auto

declare executeSwapWithRetry_loop.simps [simp del]

definition executeSwapWithRetry ::
  "(nat \<Rightarrow> int \<Rightarrow> js_error + 'r) \<Rightarrow> int \<Rightarrow> (js_error + 'r) \<times> event list" where
  "executeSwapWithRetry executeSwap maxRetries =
     executeSwapWithRetry_loop executeSwap maxRetries 1 0 None"

subsection \<open>sendAndConfirmWithRetry\<close>

text \<open>
  The \<open>while\<close> loop of the troubleshooting guide. When the loop condition fails the
  function falls off its end and returns \<open>undefined\<close> (\<open>Inr None\<close>).
\<close>

function sendAndConfirmWithRetry_loop ::
  "(nat \<Rightarrow> js_error + 'r) \<Rightarrow> int \<Rightarrow> int \<Rightarrow> nat \<Rightarrow> (js_error + 'r option) \<times> event list" where
  "sendAndConfirmWithRetry_loop sendAndConfirmTransaction maxRetries attempt n =
     (if attempt < maxRetries then
        (case sendAndConfirmTransaction n of
           Inr signature \<Rightarrow> (Inr (Some signature), [Send])
         | Inl error \<Rightarrow>
             (let attempt' = attempt + 1 in
              if attempt' < maxRetries then
                (case sendAndConfirmWithRetry_loop sendAndConfirmTransaction maxRetries attempt'
                        (Suc n) of
                   (outcome, events) \<Rightarrow>
                     (outcome, [Send, LogFailed attempt' (message error), Wait 2000] @ events))
              else (Inl error, [Send, LogFailed attempt' (message error)])))
      else (Inr None, []))"
  by pat_completeness auto
termination
  by (relation "measure (\<lambda>(sendAndConfirmTransaction, maxRetries, attempt, n).
                   nat (maxRetries - attempt))") auto

declare sendAndConfirmWithRetry_loop.simps [simp del]

definition sendAndConfirmWithRetry ::
  "(nat \<Rightarrow> js_error + 'r) \<Rightarrow> int \<Rightarrow> (js_error + 'r option) \<times> event list" where
  "sendAndConfirmWithRetry sendAndConfirmTransaction maxRetries =
     sendAndConfirmWithRetry_loop sendAndConfirmTransaction maxRetries 0 0"

subsection \<open>swapWithRetry\<close>

text \<open>
  The body of the \<open>try\<close> block: a quote with \<open>slippageBps: slippage * 100\<close>, then the swap
  built from it. Either call may throw. Both oracles are indexed by \<open>n\<close>, the number of
  quote requests made before this one.
\<close>

definition swapWithRetry_try ::
  "(nat \<Rightarrow> real \<Rightarrow> js_error + 'q) \<Rightarrow> (nat \<Rightarrow> 'q \<Rightarrow> js_error + 'r) \<Rightarrow> nat \<Rightarrow> real
     \<Rightarrow> (js_error + 'r) \<times> event list" where
  "swapWithRetry_try getSwapQuote swap n slippage =
     (case getSwapQuote n (slippage * 100) of
        Inl error \<Rightarrow> (Inl error, [Quote (slippage * 100)])
      | Inr quote \<Rightarrow>
          (case swap n quote of
             Inl error \<Rightarrow> (Inl error, [Quote (slippage * 100), Swap])
           | Inr result \<Rightarrow> (Inr result, [Quote (slippage * 100), Swap])))"

text \<open>
  \<^verbatim>\<open>error.message.includes('slippage')\<close> is a test for a contiguous substring:
  \<^const>\<open>sublist\<close>. Any other error is thrown again at once; when the loop runs out the
  function returns \<open>undefined\<close>.
\<close>

function swapWithRetry_loop ::
  "(nat \<Rightarrow> real \<Rightarrow> js_error + 'q) \<Rightarrow> (nat \<Rightarrow> 'q \<Rightarrow> js_error + 'r) \<Rightarrow> int \<Rightarrow> int \<Rightarrow> nat
     \<Rightarrow> real \<Rightarrow> (js_error + 'r option) \<times> event list" where
  "swapWithRetry_loop getSwapQuote swap maxRetries i n slippage =
     (if i < maxRetries then
        (case swapWithRetry_try getSwapQuote swap n slippage of
           (Inr result, tried) \<Rightarrow> (Inr (Some result), tried)
         | (Inl error, tried) \<Rightarrow>
             if sublist ''slippage'' (message error) then
               (let slippage' = slippage + 0.5 in
                case swapWithRetry_loop getSwapQuote swap maxRetries (i + 1) (Suc n) slippage' of
                  (outcome, events) \<Rightarrow> (outcome, tried @ [LogRetry slippage'] @ events))
             else (Inl error, tried))
      else (Inr None, []))"
  by pat_completeness auto
termination
  by (relation "measure (\<lambda>(getSwapQuote, swap, maxRetries, i, n, slippage).
                   nat (maxRetries - i))") auto

declare swapWithRetry_loop.simps [simp del]

definition swapWithRetry ::
  "(nat \<Rightarrow> real \<Rightarrow> js_error + 'q) \<Rightarrow> (nat \<Rightarrow> 'q \<Rightarrow> js_error + 'r) \<Rightarrow> int
     \<Rightarrow> (js_error + 'r option) \<times> event list" where
  "swapWithRetry getSwapQuote swap maxRetries =
     swapWithRetry_loop getSwapQuote swap maxRetries 0 0 0.5"

subsection \<open>Reading a run\<close>

text \<open>
  Projections of the event list: the slippage values passed to \<open>executeSwap\<close>, the
  timer waits, the failures logged (attempt number and message), the number of
  transaction submissions, the slippage values (in basis points) sent to the quote
  endpoint, and the events other than console lines.
\<close>

fun calls :: "event list \<Rightarrow> int list" where
  "calls [] = []"
| "calls (Call s # es) = s # calls es"
| "calls (e # es) = calls es"

fun waits :: "event list \<Rightarrow> nat list" where
  "waits [] = []"
| "waits (Wait ms # es) = ms # waits es"
| "waits (e # es) = waits es"

fun failures :: "event list \<Rightarrow> (int \<times> string) list" where
  "failures [] = []"
| "failures (LogFailed a msg # es) = (a, msg) # failures es"
| "failures (e # es) = failures es"

fun sends :: "event list \<Rightarrow> nat" where
  "sends [] = 0"
| "sends (Send # es) = Suc (sends es)"
| "sends (e # es) = sends es"

fun quotes :: "event list \<Rightarrow> real list" where
  "quotes [] = []"
| "quotes (Quote s # es) = s # quotes es"
| "quotes (e # es) = quotes es"

fun is_log :: "event \<Rightarrow> bool" where
  "is_log (LogAttempt a m) = True"
| "is_log (LogFailed a msg) = True"
| "is_log LogWaiting = True"
| "is_log (LogRetry s) = True"
| "is_log e = False"

definition actions :: "event list \<Rightarrow> event list" where
  "actions es = filter (\<lambda>e. \<not> is_log e) es"

text \<open>A list with a separator put between each two neighbours, and nowhere else.\<close>

fun intersperse :: "'a \<Rightarrow> 'a list \<Rightarrow> 'a list" where
  "intersperse sep [] = []"
| "intersperse sep [x] = [x]"
| "intersperse sep (x # y # ys) = x # sep # intersperse sep (y # ys)"

text \<open>
  Letter case: \<open>lower_case\<close> maps the letters A to Z to a to z. The source does not fold
  case; the function serves to say that a message does not mention slippage in any
  spelling.
\<close>

definition lower_case_char :: "char \<Rightarrow> char" where
  "lower_case_char c =
     (case map_of (zip ''ABCDEFGHIJKLMNOPQRSTUVWXYZ'' ''abcdefghijklmnopqrstuvwxyz'') c of
        None \<Rightarrow> c
      | Some l \<Rightarrow> l)"

definition lower_case :: "string \<Rightarrow> string" where
  "lower_case s = map lower_case_char s"

subsection \<open>Sample operations\<close>

text \<open>
  Concrete behaviours of the external calls, used to run the helpers on examples: a swap
  that is rejected every time, failures that carry the number of the attempt, a swap that
  goes through once the slippage reaches 100 basis points, a quote request that times out,
  one that is rejected with a message naming the slippage, a swap that succeeds, a
  submission that is confirmed at the third try and one that fails with the number of the
  attempt.
\<close>

definition always_rejects :: "nat \<Rightarrow> int \<Rightarrow> js_error + string" where
  "always_rejects n slippageBps = Inl (Error ''Slippage tolerance exceeded'')"

definition fails_numbered :: "nat \<Rightarrow> int \<Rightarrow> js_error + string" where
  "fails_numbered n slippageBps = Inl (Error (''failure '' @ show_nat (Suc n)))"

definition accepts_from_100bps :: "nat \<Rightarrow> int \<Rightarrow> js_error + string" where
  "accepts_from_100bps n slippageBps =
     (if slippageBps < 100 then Inl (Error ''Slippage tolerance exceeded'')
      else Inr ''signature'')"

definition quote_times_out :: "nat \<Rightarrow> real \<Rightarrow> js_error + unit" where
  "quote_times_out n slippageBps = Inl (Error ''Network timeout'')"

definition quote_rejects :: "nat \<Rightarrow> real \<Rightarrow> js_error + unit" where
  "quote_rejects n slippageBps = Inl (Error ''slippage tolerance exceeded'')"

definition swap_succeeds :: "nat \<Rightarrow> unit \<Rightarrow> js_error + string" where
  "swap_succeeds n quote = Inr ''signature''"

definition send_confirms_third :: "nat \<Rightarrow> js_error + string" where
  "send_confirms_third n =
     (if n < 2 then Inl (Error ''Transaction was not confirmed in 60.00 seconds'')
      else Inr ''signature'')"

definition send_fails_numbered :: "nat \<Rightarrow> js_error + string" where
  "send_fails_numbered n = Inl (Error (''failure '' @ show_nat (Suc n)))"

section \<open>Auxiliary lemmas\<close>

subsection \<open>Exact range of double arithmetic\<close>

lemma ulp_small: "n < 9007199254740992 \<Longrightarrow> ulp n = 1"
  by (subst ulp.simps) simp

lemma roundTiesToEven_exact: "n \<le> 9007199254740992 \<Longrightarrow> roundTiesToEven n = n"
proof (cases "n < 9007199254740992")
  case True
  then show ?thesis by (simp add: roundTiesToEven_def ulp_small)
next
  case False
  assume "n \<le> 9007199254740992"
  with False have n: "n = 9007199254740992" by simp
  have "ulp (9007199254740992) = 2"
    by (subst ulp.simps) (simp add: ulp_small)
  then show ?thesis unfolding n by (simp add: roundTiesToEven_def)
qed

lemma toDouble_exact: "\<bar>x\<bar> \<le> 9007199254740992 \<Longrightarrow> toDouble x = x"
  by (simp add: toDouble_def roundTiesToEven_exact nat_le_iff)

subsection \<open>Projections and one step of executeSwapWithRetry\<close>

lemma calls_append: "calls (xs @ ys) = calls xs @ calls ys"
  by (induction xs rule: calls.induct) simp_all

lemma waits_append: "waits (xs @ ys) = waits xs @ waits ys"
  by (induction xs rule: waits.induct) simp_all

lemma failures_append: "failures (xs @ ys) = failures xs @ failures ys"
  by (induction xs rule: failures.induct) simp_all

lemma sends_append: "sends (xs @ ys) = sends xs + sends ys"
  by (induction xs rule: sends.induct) simp_all

lemma quotes_append: "quotes (xs @ ys) = quotes xs @ quotes ys"
  by (induction xs rule: quotes.induct) simp_all

lemma actions_append: "actions (xs @ ys) = actions xs @ actions ys"
  by (simp add: actions_def)

lemma loop_done:
  "\<not> a \<le> m \<Longrightarrow> executeSwapWithRetry_loop op m a n le = (Inl (retriesExhausted m le), [])"
  by (subst executeSwapWithRetry_loop.simps) simp

lemma loop_ok:
  "a \<le> m \<Longrightarrow> op n (50 + (a - 1) * 25) = Inr r \<Longrightarrow>
   executeSwapWithRetry_loop op m a n le = (Inr r, [LogAttempt a m, Call (50 + (a - 1) * 25)])"
  by (subst executeSwapWithRetry_loop.simps) simp

lemma loop_fail:
  "a \<le> m \<Longrightarrow> op n (50 + (a - 1) * 25) = Inl e \<Longrightarrow>
   executeSwapWithRetry_loop op m a n le =
     (fst (executeSwapWithRetry_loop op m (a + 1) (Suc n) (Some e)),
      [LogAttempt a m, Call (50 + (a - 1) * 25), LogFailed a (message e)]
      @ (if a < m then [LogWaiting, Wait 2000] else [])
      @ snd (executeSwapWithRetry_loop op m (a + 1) (Suc n) (Some e)))"
  by (subst executeSwapWithRetry_loop.simps) (simp add: case_prod_beta)

lemma loop_calls_bound:
  "length (calls (snd (executeSwapWithRetry_loop op m a n le))) \<le> nat (m + 1 - a)"
proof (induction "nat (m + 1 - a)" arbitrary: a n le)
  case 0
  then have "\<not> a \<le> m" by simp
  then show ?case by (simp add: loop_done)
next
  case (Suc d)
  then have le: "a \<le> m" and d: "d = nat (m + 1 - (a + 1))" by simp_all
  show ?case
  proof (cases "op n (50 + (a - 1) * 25)")
    case (Inr r)
    with le show ?thesis by (simp add: loop_ok)
  next
    case (Inl e)
    from Suc.hyps(1)[OF d, of "Suc n" "Some e"] le Inl show ?thesis
      by (auto simp: loop_fail calls_append)
  qed
qed


lemma loop_calls_nonempty:
  "a \<le> m \<Longrightarrow> calls (snd (executeSwapWithRetry_loop op m a n le)) \<noteq> []"
  by (cases "op n (50 + (a - 1) * 25)") (simp_all add: loop_fail loop_ok)

lemma loop_success:
  assumes "\<forall>i<j. isl (op (n + i) (50 + (a + int i - 1) * 25))"
    and "op (n + j) (50 + (a + int j - 1) * 25) = Inr r"
    and "a + int j \<le> m"
  shows "fst (executeSwapWithRetry_loop op m a n le) = Inr r
       \<and> calls (snd (executeSwapWithRetry_loop op m a n le))
           = map (\<lambda>i. 50 + (a + int i - 1) * 25) [0..<Suc j]
       \<and> waits (snd (executeSwapWithRetry_loop op m a n le)) = replicate j 2000
       \<and> map fst (failures (snd (executeSwapWithRetry_loop op m a n le)))
           = map (\<lambda>i. a + int i) [0..<j]"
  using assms
proof (induction j arbitrary: a n le)
  case 0
  then show ?case by (simp add: loop_ok)
next
  case (Suc j)
  from Suc.prems(1) have "isl (op n (50 + (a - 1) * 25))"
    using spec [OF Suc.prems(1), of 0] by simp
  then obtain e where e: "op n (50 + (a - 1) * 25) = Inl e"
    by (cases "op n (50 + (a - 1) * 25)") simp_all
  from Suc.prems(3) have lt: "a < m" "a \<le> m" by simp_all
  have p1: "\<forall>i<j. isl (op (Suc n + i) (50 + (a + 1 + int i - 1) * 25))"
  proof (intro allI impI)
    fix i assume "i < j"
    then have "Suc i < Suc j" by simp
    with Suc.prems(1) have "isl (op (n + Suc i) (50 + (a + int (Suc i) - 1) * 25))" by blast
    then show "isl (op (Suc n + i) (50 + (a + 1 + int i - 1) * 25))"
      by (simp add: algebra_simps)
  qed
  have p2: "op (Suc n + j) (50 + (a + 1 + int j - 1) * 25) = Inr r"
    using Suc.prems(2) by (simp add: algebra_simps)
  have p3: "a + 1 + int j \<le> m" using Suc.prems(3) by simp
  note IH = Suc.IH [OF p1 p2 p3, of "Some e"]
  have m1: "map (\<lambda>i. 50 + (a + int i - 1) * 25) [0..<Suc (Suc j)]
            = (50 + (a - 1) * 25) # map (\<lambda>i. 50 + (a + 1 + int i - 1) * 25) [0..<Suc j]"
    by (subst map_upt_Suc) (simp add: algebra_simps)
  have m2: "map (\<lambda>i. a + int i) [0..<Suc j] = a # map (\<lambda>i. a + 1 + int i) [0..<j]"
    by (subst map_upt_Suc) (simp add: algebra_simps)
  have step: "executeSwapWithRetry_loop op m a n le =
     (fst (executeSwapWithRetry_loop op m (a + 1) (Suc n) (Some e)),
      [LogAttempt a m, Call (50 + (a - 1) * 25), LogFailed a (message e), LogWaiting, Wait 2000]
      @ snd (executeSwapWithRetry_loop op m (a + 1) (Suc n) (Some e)))"
    using loop_fail [where op = op and a = a and m = m and n = n and e = e and le = le] lt e
    by simp
  show ?case
    unfolding step m1 m2
    using IH by (simp add: calls_append waits_append failures_append)
qed


lemma loop_all_fail:
  assumes "\<forall>i<nat (m + 1 - a). isl (op (n + i) (50 + (a + int i - 1) * 25))"
  shows "fst (executeSwapWithRetry_loop op m a n le)
           = Inl (retriesExhausted m
                   (if a \<le> m then Some (projl (op (n + nat (m - a)) (50 + (m - 1) * 25)))
                    else le))
       \<and> calls (snd (executeSwapWithRetry_loop op m a n le))
           = map (\<lambda>i. 50 + (a + int i - 1) * 25) [0..<nat (m + 1 - a)]
       \<and> waits (snd (executeSwapWithRetry_loop op m a n le)) = replicate (nat (m - a)) 2000
       \<and> map fst (failures (snd (executeSwapWithRetry_loop op m a n le)))
           = map (\<lambda>i. a + int i) [0..<nat (m + 1 - a)]"
  using assms
proof (induction "nat (m + 1 - a)" arbitrary: a n le)
  case 0
  then have "\<not> a \<le> m" by simp
  then show ?case by (simp add: loop_done)
next
  case (Suc d)
  then have le: "a \<le> m" and d: "d = nat (m + 1 - (a + 1))"
    and sd: "nat (m + 1 - a) = Suc d" by simp_all
  from Suc.prems have "isl (op n (50 + (a - 1) * 25))"
    using spec [OF Suc.prems, of 0] sd by simp
  then obtain e where e: "op n (50 + (a - 1) * 25) = Inl e"
    by (cases "op n (50 + (a - 1) * 25)") simp_all
  have p1: "\<forall>i<nat (m + 1 - (a + 1)). isl (op (Suc n + i) (50 + (a + 1 + int i - 1) * 25))"
  proof (intro allI impI)
    fix i assume "i < nat (m + 1 - (a + 1))"
    then have "Suc i < nat (m + 1 - a)" by simp
    with Suc.prems have "isl (op (n + Suc i) (50 + (a + int (Suc i) - 1) * 25))" by blast
    then show "isl (op (Suc n + i) (50 + (a + 1 + int i - 1) * 25))"
      by (simp add: algebra_simps)
  qed
  note IH = Suc.hyps(1) [OF d p1, of "Some e", folded d]
  have m1: "map (\<lambda>i. 50 + (a + int i - 1) * 25) [0..<Suc d]
            = (50 + (a - 1) * 25) # map (\<lambda>i. 50 + (a + 1 + int i - 1) * 25) [0..<d]"
    by (subst map_upt_Suc) (simp add: algebra_simps)
  have m2: "map (\<lambda>i. a + int i) [0..<Suc d] = a # map (\<lambda>i. a + 1 + int i) [0..<d]"
    by (subst map_upt_Suc) (simp add: algebra_simps)
  have step: "executeSwapWithRetry_loop op m a n le =
     (fst (executeSwapWithRetry_loop op m (a + 1) (Suc n) (Some e)),
      [LogAttempt a m, Call (50 + (a - 1) * 25), LogFailed a (message e)]
      @ (if a < m then [LogWaiting, Wait 2000] else [])
      @ snd (executeSwapWithRetry_loop op m (a + 1) (Suc n) (Some e)))"
    using loop_fail [where op = op and a = a and m = m and n = n and e = e and le = le] le e
    by simp
  show ?case
  proof (cases "a < m")
    case True
    then have n1: "Suc n + nat (m - (a + 1)) = n + nat (m - a)"
      and r1: "nat (m - a) = Suc (nat (m - (a + 1)))" by simp_all
    show ?thesis
      unfolding step sd m1 m2
      using IH True le n1
      by (simp add: calls_append waits_append failures_append r1)
  next
    case False
    with le have am: "a = m" by simp
    then have d0: "d = 0" using d by simp
    show ?thesis
      unfolding step sd m1 m2
      using IH e am d0
      by (simp add: calls_append waits_append failures_append)
  qed
qed

lemma loop_failure_exhausted:
  "fst (executeSwapWithRetry_loop op m a n le) = Inl err \<Longrightarrow>
     length (calls (snd (executeSwapWithRetry_loop op m a n le))) = nat (m + 1 - a)
   \<and> (\<exists>last. err = retriesExhausted m last)"
proof (induction "nat (m + 1 - a)" arbitrary: a n le)
  case 0
  then have "\<not> a \<le> m" by simp
  with 0 show ?case by (auto simp: loop_done)
next
  case (Suc d)
  then have le: "a \<le> m" and d: "d = nat (m + 1 - (a + 1))" by simp_all
  show ?case
  proof (cases "op n (50 + (a - 1) * 25)")
    case (Inr r)
    with le Suc.prems show ?thesis by (simp add: loop_ok)
  next
    case (Inl e)
    have step: "executeSwapWithRetry_loop op m a n le =
       (fst (executeSwapWithRetry_loop op m (a + 1) (Suc n) (Some e)),
        [LogAttempt a m, Call (50 + (a - 1) * 25), LogFailed a (message e)]
        @ (if a < m then [LogWaiting, Wait 2000] else [])
        @ snd (executeSwapWithRetry_loop op m (a + 1) (Suc n) (Some e)))"
      using loop_fail [where op = op and a = a and m = m and n = n and e = e and le = le] le Inl
      by simp
    from Suc.prems have "fst (executeSwapWithRetry_loop op m (a + 1) (Suc n) (Some e)) = Inl err"
      unfolding step by simp
    from Suc.hyps(1) [OF d this] le show ?thesis
      unfolding step by (auto simp: calls_append)
  qed
qed

lemma loop_failure_all_failed:
  "fst (executeSwapWithRetry_loop op m a n le) = Inl err \<Longrightarrow>
   \<forall>i<nat (m + 1 - a). isl (op (n + i) (50 + (a + int i - 1) * 25))"
proof (induction "nat (m + 1 - a)" arbitrary: a n le)
  case 0
  then show ?case by simp
next
  case (Suc d)
  then have le: "a \<le> m" and d: "d = nat (m + 1 - (a + 1))"
    and sd: "nat (m + 1 - a) = Suc d" by simp_all
  show ?case
  proof (cases "op n (50 + (a - 1) * 25)")
    case (Inr r)
    with le Suc.prems show ?thesis by (simp add: loop_ok)
  next
    case (Inl e)
    have step: "fst (executeSwapWithRetry_loop op m a n le)
                = fst (executeSwapWithRetry_loop op m (a + 1) (Suc n) (Some e))"
      using loop_fail [where op = op and a = a and m = m and n = n and e = e and le = le] le Inl
      by simp
    from Suc.prems have "fst (executeSwapWithRetry_loop op m (a + 1) (Suc n) (Some e)) = Inl err"
      unfolding step .
    from Suc.hyps(1) [OF d this]
    have IH: "\<forall>i<d. isl (op (Suc n + i) (50 + (a + 1 + int i - 1) * 25))"
      unfolding d [symmetric] .
    show ?thesis
      unfolding sd
    proof (intro allI impI)
      fix i assume i: "i < Suc d"
      show "isl (op (n + i) (50 + (a + int i - 1) * 25))"
      proof (cases i)
        case 0
        with Inl show ?thesis by simp
      next
        case (Suc j)
        with i have "j < d" by simp
        with IH have "isl (op (Suc n + j) (50 + (a + 1 + int j - 1) * 25))" by blast
        with Suc show ?thesis by (simp add: algebra_simps)
      qed
    qed
  qed
qed

lemma progression_strict:
  "sorted_wrt (<) (map (\<lambda>i. 50 + int i * 25) [0..<n])"
  by (simp add: sorted_wrt_map sorted_wrt_iff_nth_less)

lemma intersperse_Cons:
  "ys \<noteq> [] \<Longrightarrow> intersperse sep (x # ys) = x # sep # intersperse sep ys"
  by (cases ys) simp_all

lemma loop_actions:
  "actions (snd (executeSwapWithRetry_loop op m a n le))
     = intersperse (Wait 2000) (map Call (calls (snd (executeSwapWithRetry_loop op m a n le))))
   \<and> length (waits (snd (executeSwapWithRetry_loop op m a n le)))
     = length (filter (\<lambda>f. fst f < m) (failures (snd (executeSwapWithRetry_loop op m a n le))))"
proof (induction "nat (m + 1 - a)" arbitrary: a n le)
  case 0
  then have "\<not> a \<le> m" by simp
  then show ?case by (simp add: loop_done actions_def)
next
  case (Suc d)
  then have le: "a \<le> m" and d: "d = nat (m + 1 - (a + 1))" by simp_all
  show ?case
  proof (cases "op n (50 + (a - 1) * 25)")
    case (Inr r)
    with le show ?thesis by (simp add: loop_ok actions_def)
  next
    case (Inl e)
    have step: "executeSwapWithRetry_loop op m a n le =
       (fst (executeSwapWithRetry_loop op m (a + 1) (Suc n) (Some e)),
        [LogAttempt a m, Call (50 + (a - 1) * 25), LogFailed a (message e)]
        @ (if a < m then [LogWaiting, Wait 2000] else [])
        @ snd (executeSwapWithRetry_loop op m (a + 1) (Suc n) (Some e)))"
      using loop_fail [where op = op and a = a and m = m and n = n and e = e and le = le] le Inl
      by simp
    note IH = Suc.hyps(1) [OF d, of "Suc n" "Some e"]
    show ?thesis
    proof (cases "a < m")
      case True
      then have "calls (snd (executeSwapWithRetry_loop op m (a + 1) (Suc n) (Some e))) \<noteq> []"
        by (simp add: loop_calls_nonempty)
      with IH True show ?thesis
        unfolding step
        by (simp add: calls_append waits_append failures_append actions_append
              intersperse_Cons) (simp add: actions_def)
    next
      case False
      then have "\<not> a + 1 \<le> m" by simp
      then have "executeSwapWithRetry_loop op m (a + 1) (Suc n) (Some e)
                 = (Inl (retriesExhausted m (Some e)), [])"
        by (rule loop_done)
      with False show ?thesis
        unfolding step by (simp add: actions_def)
    qed
  qed
qed


lemma loop_calls_progression:
  "calls (snd (executeSwapWithRetry_loop op m a n le))
     = map (\<lambda>i. 50 + (a + int i - 1) * 25)
         [0..<length (calls (snd (executeSwapWithRetry_loop op m a n le)))]"
proof (induction "nat (m + 1 - a)" arbitrary: a n le)
  case 0
  then have "\<not> a \<le> m" by simp
  then show ?case by (simp add: loop_done)
next
  case (Suc d)
  then have le: "a \<le> m" and d: "d = nat (m + 1 - (a + 1))" by simp_all
  show ?case
  proof (cases "op n (50 + (a - 1) * 25)")
    case (Inr r)
    with le show ?thesis by (simp add: loop_ok)
  next
    case (Inl e)
    have step: "executeSwapWithRetry_loop op m a n le =
       (fst (executeSwapWithRetry_loop op m (a + 1) (Suc n) (Some e)),
        [LogAttempt a m, Call (50 + (a - 1) * 25), LogFailed a (message e)]
        @ (if a < m then [LogWaiting, Wait 2000] else [])
        @ snd (executeSwapWithRetry_loop op m (a + 1) (Suc n) (Some e)))"
      using loop_fail [where op = op and a = a and m = m and n = n and e = e and le = le] le Inl
      by simp
    define rest where "rest = calls (snd (executeSwapWithRetry_loop op m (a + 1) (Suc n) (Some e)))"
    have IH: "rest = map (\<lambda>i. 50 + (a + 1 + int i - 1) * 25) [0..<length rest]"
      unfolding rest_def by (rule Suc.hyps(1) [OF d])
    have c: "calls (snd (executeSwapWithRetry_loop op m a n le)) = (50 + (a - 1) * 25) # rest"
      unfolding step rest_def by (simp add: calls_append)
    have "map (\<lambda>i. 50 + (a + int i - 1) * 25) [0..<Suc (length rest)]
            = (50 + (a - 1) * 25) # map (\<lambda>i. 50 + (a + 1 + int i - 1) * 25) [0..<length rest]"
      by (subst map_upt_Suc) (simp add: algebra_simps)
    with IH show ?thesis unfolding c by simp
  qed
qed

lemma filter_upt_Suc_shift:
  "length (filter P [0..<Suc k]) =
     (if P 0 then 1 else 0) + length (filter (\<lambda>i. P (Suc i)) [0..<k])"
proof -
  have "[0..<Suc k] = 0 # map Suc [0..<k]"
    by (simp add: upt_conv_Cons map_Suc_upt del: upt_Suc)
  then show ?thesis
    by (simp add: filter_map comp_def del: upt_Suc)
qed

lemma loop_calls_Cons:
  "a \<le> m \<Longrightarrow> op n (50 + (a - 1) * 25) = Inl e \<Longrightarrow>
   calls (snd (executeSwapWithRetry_loop op m a n le))
     = (50 + (a - 1) * 25) # calls (snd (executeSwapWithRetry_loop op m (a + 1) (Suc n) (Some e)))
   \<and> waits (snd (executeSwapWithRetry_loop op m a n le))
     = (if a < m then [2000] else [])
       @ waits (snd (executeSwapWithRetry_loop op m (a + 1) (Suc n) (Some e)))"
  using loop_fail [where op = op and a = a and m = m and n = n and e = e and le = le]
  by (simp add: calls_append waits_append)

lemma loop_success_last:
  "i < length (calls (snd (executeSwapWithRetry_loop op m a n le))) \<Longrightarrow>
   \<not> isl (op (n + i) (50 + (a + int i - 1) * 25)) \<Longrightarrow>
   Suc i = length (calls (snd (executeSwapWithRetry_loop op m a n le)))"
proof (induction "nat (m + 1 - a)" arbitrary: a n le i)
  case 0
  then have "\<not> a \<le> m" by simp
  with "0.prems"(1) show ?case by (simp add: loop_done)
next
  case (Suc d)
  then have le: "a \<le> m" and d: "d = nat (m + 1 - (a + 1))" by simp_all
  show ?case
  proof (cases "op n (50 + (a - 1) * 25)")
    case (Inr r)
    with le Suc.prems(1) show ?thesis by (simp add: loop_ok)
  next
    case (Inl e)
    note c = conjunct1 [OF loop_calls_Cons [where op = op and le = le, OF le Inl]]
    show ?thesis
    proof (cases i)
      case 0
      with Suc.prems(2) Inl show ?thesis by simp
    next
      case (Suc k)
      with Suc.prems(1)
      have k: "k < length (calls (snd (executeSwapWithRetry_loop op m (a + 1) (Suc n) (Some e))))"
        unfolding c by simp
      have eq: "n + i = Suc n + k" "a + int i - 1 = a + 1 + int k - 1"
        using Suc by simp_all
      have f: "\<not> isl (op (Suc n + k) (50 + (a + 1 + int k - 1) * 25))"
        using Suc.prems(2) unfolding eq .
      from Suc.hyps(1) [OF d k f] Suc show ?thesis
        unfolding c by simp
    qed
  qed
qed

lemma loop_waits_count:
  "length (waits (snd (executeSwapWithRetry_loop op m a n le)))
     = length (filter (\<lambda>i. isl (op (n + i) (50 + (a + int i - 1) * 25)) \<and> a + int i < m)
                [0..<length (calls (snd (executeSwapWithRetry_loop op m a n le)))])"
proof (induction "nat (m + 1 - a)" arbitrary: a n le)
  case 0
  then have "\<not> a \<le> m" by simp
  then show ?case by (simp add: loop_done)
next
  case (Suc d)
  then have le: "a \<le> m" and d: "d = nat (m + 1 - (a + 1))" by simp_all
  show ?case
  proof (cases "op n (50 + (a - 1) * 25)")
    case (Inr r)
    with le show ?thesis by (simp add: loop_ok)
  next
    case (Inl e)
    note c = loop_calls_Cons [where op = op and le = le, OF le Inl]
    have sh: "(\<lambda>i. isl (op (n + Suc i) (50 + (a + int (Suc i) - 1) * 25)) \<and> a + int (Suc i) < m)
            = (\<lambda>i. isl (op (Suc n + i) (50 + (a + 1 + int i - 1) * 25)) \<and> a + 1 + int i < m)"
      by (rule ext) (simp add: algebra_simps)
    from Suc.hyps(1) [OF d, of "Suc n" "Some e"] Inl show ?thesis
      unfolding conjunct1 [OF c] conjunct2 [OF c] length_Cons filter_upt_Suc_shift sh
      by simp
  qed
qed

subsection \<open>Lemmas on sendAndConfirmWithRetry\<close>

lemma sloop_done:
  "\<not> a < m \<Longrightarrow> sendAndConfirmWithRetry_loop tx m a n = (Inr None, [])"
  by (subst sendAndConfirmWithRetry_loop.simps) simp

lemma sloop_ok:
  "a < m \<Longrightarrow> tx n = Inr r \<Longrightarrow> sendAndConfirmWithRetry_loop tx m a n = (Inr (Some r), [Send])"
  by (subst sendAndConfirmWithRetry_loop.simps) simp

lemma sloop_fail_more:
  "a + 1 < m \<Longrightarrow> tx n = Inl e \<Longrightarrow>
   sendAndConfirmWithRetry_loop tx m a n =
     (fst (sendAndConfirmWithRetry_loop tx m (a + 1) (Suc n)),
      [Send, LogFailed (a + 1) (message e), Wait 2000]
      @ snd (sendAndConfirmWithRetry_loop tx m (a + 1) (Suc n)))"
  by (subst sendAndConfirmWithRetry_loop.simps) (simp add: case_prod_beta Let_def)

lemma sloop_fail_last:
  "a < m \<Longrightarrow> \<not> a + 1 < m \<Longrightarrow> tx n = Inl e \<Longrightarrow>
   sendAndConfirmWithRetry_loop tx m a n = (Inl e, [Send, LogFailed (a + 1) (message e)])"
  by (subst sendAndConfirmWithRetry_loop.simps) (simp add: Let_def)

lemma sloop_sends_pos:
  "a < m \<Longrightarrow> sends (snd (sendAndConfirmWithRetry_loop tx m a n)) \<noteq> 0"
  by (cases "tx n"; cases "a + 1 < m")
     (simp_all add: sloop_ok sloop_fail_more sloop_fail_last)

lemma sloop_sends_bound:
  "sends (snd (sendAndConfirmWithRetry_loop tx m a n)) \<le> nat (m - a)"
proof (induction "nat (m - a)" arbitrary: a n)
  case 0
  then have "\<not> a < m" by simp
  then show ?case by (simp add: sloop_done)
next
  case (Suc d)
  then have lt: "a < m" and d: "d = nat (m - (a + 1))" by simp_all
  show ?case
  proof (cases "tx n")
    case (Inr r)
    with lt show ?thesis by (simp add: sloop_ok)
  next
    case (Inl e)
    show ?thesis
    proof (cases "a + 1 < m")
      case True
      from Suc.hyps(1) [OF d, of "Suc n"] True show ?thesis
        unfolding sloop_fail_more [where tx = tx, OF True Inl]
        by (simp add: sends_append)
    next
      case False
      with lt show ?thesis
        unfolding sloop_fail_last [where tx = tx, OF lt False Inl] by simp
    qed
  qed
qed

lemma sloop_failure_exhausted:
  "fst (sendAndConfirmWithRetry_loop tx m a n) = Inl err \<Longrightarrow>
     sends (snd (sendAndConfirmWithRetry_loop tx m a n)) = nat (m - a)
   \<and> a < m \<and> tx (n + nat (m - a) - 1) = Inl err"
proof (induction "nat (m - a)" arbitrary: a n)
  case 0
  then have "\<not> a < m" by simp
  with 0 show ?case by (simp add: sloop_done)
next
  case (Suc d)
  then have lt: "a < m" and d: "d = nat (m - (a + 1))" by simp_all
  show ?case
  proof (cases "tx n")
    case (Inr r)
    with lt Suc.prems show ?thesis by (simp add: sloop_ok)
  next
    case (Inl e)
    show ?thesis
    proof (cases "a + 1 < m")
      case True
      note step = sloop_fail_more [where tx = tx, OF True Inl]
      from Suc.prems have f: "fst (sendAndConfirmWithRetry_loop tx m (a + 1) (Suc n)) = Inl err"
        unfolding step by simp
      from True have r1: "nat (m - a) = Suc (nat (m - (a + 1)))" by simp
      from Suc.hyps(1) [OF d f] True lt show ?thesis
        unfolding step r1 by (simp add: sends_append)
    next
      case False
      note step = sloop_fail_last [where tx = tx, OF lt False Inl]
      from False lt have "nat (m - a) = 1" by simp
      with Suc.prems Inl lt show ?thesis
        unfolding step by simp
    qed
  qed
qed

lemma sloop_all_fail:
  assumes "a < m" and "\<forall>i<nat (m - a). isl (tx (n + i))"
  shows "fst (sendAndConfirmWithRetry_loop tx m a n) = Inl (projl (tx (n + nat (m - a) - 1)))"
  using assms
proof (induction "nat (m - a)" arbitrary: a n)
  case 0
  then show ?case by simp
next
  case (Suc d)
  then have lt: "a < m" and d: "d = nat (m - (a + 1))" and sd: "nat (m - a) = Suc d"
    by simp_all
  from spec [OF Suc.prems(2), of 0] sd have "isl (tx n)" by simp
  then obtain e where e: "tx n = Inl e" by (cases "tx n") simp_all
  show ?case
  proof (cases "a + 1 < m")
    case True
    have p: "\<forall>i<nat (m - (a + 1)). isl (tx (Suc n + i))"
    proof (intro allI impI)
      fix i assume "i < nat (m - (a + 1))"
      then have "Suc i < nat (m - a)" by simp
      with Suc.prems(2) have "isl (tx (n + Suc i))" by blast
      then show "isl (tx (Suc n + i))" by simp
    qed
    from True have n1: "Suc n + nat (m - (a + 1)) - 1 = n + nat (m - a) - 1" by simp
    from Suc.hyps(1) [OF d True p] show ?thesis
      unfolding sloop_fail_more [where tx = tx, OF True e] n1 by simp
  next
    case False
    with lt have "nat (m - a) = 1" by simp
    then show ?thesis
      unfolding sloop_fail_last [where tx = tx, OF lt False e] using e by simp
  qed
qed

lemma sloop_actions:
  "actions (snd (sendAndConfirmWithRetry_loop tx m a n))
     = intersperse (Wait 2000) (replicate (sends (snd (sendAndConfirmWithRetry_loop tx m a n))) Send)
   \<and> length (waits (snd (sendAndConfirmWithRetry_loop tx m a n)))
     = length (filter (\<lambda>f. fst f < m) (failures (snd (sendAndConfirmWithRetry_loop tx m a n))))"
proof (induction "nat (m - a)" arbitrary: a n)
  case 0
  then have "\<not> a < m" by simp
  then show ?case by (simp add: sloop_done actions_def)
next
  case (Suc d)
  then have lt: "a < m" and d: "d = nat (m - (a + 1))" by simp_all
  show ?case
  proof (cases "tx n")
    case (Inr r)
    with lt show ?thesis by (simp add: sloop_ok actions_def)
  next
    case (Inl e)
    show ?thesis
    proof (cases "a + 1 < m")
      case True
      then have "sends (snd (sendAndConfirmWithRetry_loop tx m (a + 1) (Suc n))) \<noteq> 0"
        by (rule sloop_sends_pos)
      then obtain k where k: "sends (snd (sendAndConfirmWithRetry_loop tx m (a + 1) (Suc n))) = Suc k"
        by (cases "sends (snd (sendAndConfirmWithRetry_loop tx m (a + 1) (Suc n)))") simp_all
      from Suc.hyps(1) [OF d, of "Suc n"] True show ?thesis
        unfolding sloop_fail_more [where tx = tx, OF True Inl]
        by (simp add: sends_append waits_append failures_append actions_append k)
           (simp add: actions_def)
    next
      case False
      then show ?thesis
        unfolding sloop_fail_last [where tx = tx, OF lt False Inl] by (simp add: actions_def)
    qed
  qed
qed


lemma sloop_failure_all_failed:
  "fst (sendAndConfirmWithRetry_loop tx m a n) = Inl err \<Longrightarrow>
   \<forall>i<nat (m - a). isl (tx (n + i))"
proof (induction "nat (m - a)" arbitrary: a n)
  case 0
  then show ?case by simp
next
  case (Suc d)
  then have lt: "a < m" and d: "d = nat (m - (a + 1))" and sd: "nat (m - a) = Suc d"
    by simp_all
  show ?case
  proof (cases "tx n")
    case (Inr r)
    with lt Suc.prems show ?thesis by (simp add: sloop_ok)
  next
    case (Inl e)
    show ?thesis
    proof (cases "a + 1 < m")
      case True
      from Suc.prems have "fst (sendAndConfirmWithRetry_loop tx m (a + 1) (Suc n)) = Inl err"
        unfolding sloop_fail_more [where tx = tx, OF True Inl] by simp
      from Suc.hyps(1) [OF d this]
      have IH: "\<forall>i<d. isl (tx (Suc n + i))"
        unfolding d [symmetric] .
      show ?thesis
        unfolding sd
      proof (intro allI impI)
        fix i assume i: "i < Suc d"
        show "isl (tx (n + i))"
        proof (cases i)
          case 0
          with Inl show ?thesis by simp
        next
          case (Suc j)
          with i have "j < d" by simp
          with IH have "isl (tx (Suc n + j))" by blast
          with Suc show ?thesis by simp
        qed
      qed
    next
      case False
      with lt have "nat (m - a) = 1" by simp
      with Inl show ?thesis by simp
    qed
  qed
qed

lemma sloop_success_last:
  "i < sends (snd (sendAndConfirmWithRetry_loop tx m a n)) \<Longrightarrow>
   \<not> isl (tx (n + i)) \<Longrightarrow>
   Suc i = sends (snd (sendAndConfirmWithRetry_loop tx m a n))"
proof (induction "nat (m - a)" arbitrary: a n i)
  case 0
  then have "\<not> a < m" by simp
  with "0.prems"(1) show ?case by (simp add: sloop_done)
next
  case (Suc d)
  then have lt: "a < m" and d: "d = nat (m - (a + 1))" by simp_all
  show ?case
  proof (cases "tx n")
    case (Inr r)
    with lt Suc.prems(1) show ?thesis by (simp add: sloop_ok)
  next
    case (Inl e)
    show ?thesis
    proof (cases "a + 1 < m")
      case False
      with Suc.prems(1) show ?thesis
        unfolding sloop_fail_last [where tx = tx, OF lt False Inl] by simp
    next
      case True
      note step = sloop_fail_more [where tx = tx, OF True Inl]
      show ?thesis
      proof (cases i)
        case 0
        with Suc.prems(2) Inl show ?thesis by simp
      next
        case (Suc k)
        with Suc.prems(1)
        have k: "k < sends (snd (sendAndConfirmWithRetry_loop tx m (a + 1) (Suc n)))"
          unfolding step by (simp add: sends_append)
        have eq: "n + i = Suc n + k" using Suc by simp
        have f: "\<not> isl (tx (Suc n + k))"
          using Suc.prems(2) unfolding eq .
        from Suc.hyps(1) [OF d k f] Suc show ?thesis
          unfolding step by (simp add: sends_append)
      qed
    qed
  qed
qed

lemma sloop_waits_count:
  "length (waits (snd (sendAndConfirmWithRetry_loop tx m a n)))
     = length (filter (\<lambda>i. isl (tx (n + i)) \<and> a + int (Suc i) < m)
                [0..<sends (snd (sendAndConfirmWithRetry_loop tx m a n))])"
proof (induction "nat (m - a)" arbitrary: a n)
  case 0
  then have "\<not> a < m" by simp
  then show ?case by (simp add: sloop_done)
next
  case (Suc d)
  then have lt: "a < m" and d: "d = nat (m - (a + 1))" by simp_all
  show ?case
  proof (cases "tx n")
    case (Inr r)
    with lt show ?thesis by (simp add: sloop_ok)
  next
    case (Inl e)
    show ?thesis
    proof (cases "a + 1 < m")
      case False
      then show ?thesis
        unfolding sloop_fail_last [where tx = tx, OF lt False Inl] by simp
    next
      case True
      note step = sloop_fail_more [where tx = tx, OF True Inl]
      have sh: "(\<lambda>i. isl (tx (n + Suc i)) \<and> a + int (Suc (Suc i)) < m)
              = (\<lambda>i. isl (tx (Suc n + i)) \<and> a + 1 + int (Suc i) < m)"
        by (rule ext) (simp add: algebra_simps)
      have c: "sends (snd (sendAndConfirmWithRetry_loop tx m a n))
                 = Suc (sends (snd (sendAndConfirmWithRetry_loop tx m (a + 1) (Suc n))))"
        and w: "waits (snd (sendAndConfirmWithRetry_loop tx m a n))
                 = 2000 # waits (snd (sendAndConfirmWithRetry_loop tx m (a + 1) (Suc n)))"
        unfolding step by (simp_all add: sends_append waits_append)
      from Suc.hyps(1) [OF d, of "Suc n"] Inl True show ?thesis
        unfolding c w length_Cons filter_upt_Suc_shift sh
        by simp
    qed
  qed
qed

subsection \<open>Lemmas on swapWithRetry\<close>

lemma try_quotes: "quotes (snd (swapWithRetry_try gq sw n s)) = [s * 100]"
  by (simp add: swapWithRetry_try_def split: sum.splits)

lemma wloop_done:
  "\<not> i < m \<Longrightarrow> swapWithRetry_loop gq sw m i n s = (Inr None, [])"
  by (subst swapWithRetry_loop.simps) simp

lemma wloop_ok:
  "i < m \<Longrightarrow> swapWithRetry_try gq sw n s = (Inr r, tried) \<Longrightarrow>
   swapWithRetry_loop gq sw m i n s = (Inr (Some r), tried)"
  by (subst swapWithRetry_loop.simps) simp

lemma wloop_throw:
  "i < m \<Longrightarrow> swapWithRetry_try gq sw n s = (Inl e, tried) \<Longrightarrow>
   \<not> sublist ''slippage'' (message e) \<Longrightarrow>
   swapWithRetry_loop gq sw m i n s = (Inl e, tried)"
  by (subst swapWithRetry_loop.simps) simp

lemma wloop_retry:
  "i < m \<Longrightarrow> swapWithRetry_try gq sw n s = (Inl e, tried) \<Longrightarrow>
   sublist ''slippage'' (message e) \<Longrightarrow>
   swapWithRetry_loop gq sw m i n s =
     (fst (swapWithRetry_loop gq sw m (i + 1) (Suc n) (s + 0.5)),
      tried @ [LogRetry (s + 0.5)] @ snd (swapWithRetry_loop gq sw m (i + 1) (Suc n) (s + 0.5)))"
  by (subst swapWithRetry_loop.simps) (simp add: case_prod_beta Let_def)

lemma wloop_quotes_progression:
  "quotes (snd (swapWithRetry_loop gq sw m i n s))
     = map (\<lambda>k. (s + 0.5 * real k) * 100)
         [0..<length (quotes (snd (swapWithRetry_loop gq sw m i n s)))]"
proof (induction "nat (m - i)" arbitrary: i n s)
  case 0
  then have "\<not> i < m" by simp
  then show ?case by (simp add: wloop_done)
next
  case (Suc d)
  then have lt: "i < m" and d: "d = nat (m - (i + 1))" by simp_all
  obtain out tried where t: "swapWithRetry_try gq sw n s = (out, tried)"
    by (cases "swapWithRetry_try gq sw n s")
  then have q: "quotes tried = [s * 100]"
    using try_quotes [of gq sw n s] by simp
  show ?case
  proof (cases out)
    case (Inr r)
    with lt t q show ?thesis by (simp add: wloop_ok)
  next
    case (Inl e)
    show ?thesis
    proof (cases "sublist ''slippage'' (message e)")
      case False
      with lt t q Inl show ?thesis by (simp add: wloop_throw)
    next
      case True
      define rest where "rest = quotes (snd (swapWithRetry_loop gq sw m (i + 1) (Suc n) (s + 0.5)))"
      have IH: "rest = map (\<lambda>k. (s + 0.5 + 0.5 * real k) * 100) [0..<length rest]"
        unfolding rest_def by (rule Suc.hyps(1) [OF d])
      have c: "quotes (snd (swapWithRetry_loop gq sw m i n s)) = (s * 100) # rest"
        using wloop_retry [where gq = gq and sw = sw and e = e, OF lt _ True] t Inl q
        by (simp add: quotes_append rest_def)
      have "map (\<lambda>k. (s + 0.5 * real k) * 100) [0..<Suc (length rest)]
              = (s * 100) # map (\<lambda>k. (s + 0.5 + 0.5 * real k) * 100) [0..<length rest]"
        by (subst map_upt_Suc) (simp add: algebra_simps)
      with IH show ?thesis unfolding c by simp
    qed
  qed
qed

lemma lower_case_slippage: "lower_case ''slippage'' = ''slippage''"
  by (simp add: lower_case_def lower_case_char_def)

lemma sublist_lower_case:
  "sublist xs ys \<Longrightarrow> sublist (lower_case xs) (lower_case ys)"
  unfolding lower_case_def by (rule map_mono_sublist)

lemma no_slippage_any_case:
  "\<not> sublist ''slippage'' (lower_case msg) \<Longrightarrow> \<not> sublist ''slippage'' msg"
  using sublist_lower_case [of "''slippage''" msg] by (auto simp: lower_case_slippage)

lemma try_failure_iff:
  "fst (swapWithRetry_try gq sw n s) = Inl e \<longleftrightarrow>
     gq n (s * 100) = Inl e \<or> (\<exists>quote. gq n (s * 100) = Inr quote \<and> sw n quote = Inl e)"
  by (auto simp: swapWithRetry_try_def split: sum.splits)

lemma wloop_throw_last:
  "j < length (quotes (snd (swapWithRetry_loop gq sw m i n s))) \<Longrightarrow>
   fst (swapWithRetry_try gq sw (n + j) (s + 0.5 * real j)) = Inl e \<Longrightarrow>
   \<not> sublist ''slippage'' (message e) \<Longrightarrow>
   fst (swapWithRetry_loop gq sw m i n s) = Inl e
   \<and> length (quotes (snd (swapWithRetry_loop gq sw m i n s))) = Suc j"
proof (induction "nat (m - i)" arbitrary: i n s j)
  case 0
  then have "\<not> i < m" by simp
  with "0.prems"(1) show ?case by (simp add: wloop_done)
next
  case (Suc d)
  then have lt: "i < m" and d: "d = nat (m - (i + 1))" by simp_all
  obtain out tried where t: "swapWithRetry_try gq sw n s = (out, tried)"
    by (cases "swapWithRetry_try gq sw n s")
  then have q: "quotes tried = [s * 100]"
    using try_quotes [of gq sw n s] by simp
  show ?case
  proof (cases out)
    case (Inr r)
    with lt t have run: "swapWithRetry_loop gq sw m i n s = (Inr (Some r), tried)"
      by (simp add: wloop_ok)
    with Suc.prems(1) q have "j = 0" by simp
    with Suc.prems(2) t Inr show ?thesis by simp
  next
    case (Inl e0)
    show ?thesis
    proof (cases "sublist ''slippage'' (message e0)")
      case False
      with lt t Inl have run: "swapWithRetry_loop gq sw m i n s = (Inl e0, tried)"
        by (simp add: wloop_throw)
      with Suc.prems(1) q have j: "j = 0" by simp
      with Suc.prems(2) t Inl have "e0 = e" by simp
      with run q j show ?thesis by simp
    next
      case True
      have run: "swapWithRetry_loop gq sw m i n s =
         (fst (swapWithRetry_loop gq sw m (i + 1) (Suc n) (s + 0.5)),
          tried @ [LogRetry (s + 0.5)] @ snd (swapWithRetry_loop gq sw m (i + 1) (Suc n) (s + 0.5)))"
        using wloop_retry [where gq = gq and sw = sw and e = e0 and tried = tried
            and m = m and i = i and n = n and s = s] lt t Inl True
        by simp
      show ?thesis
      proof (cases j)
        case 0
        with Suc.prems(2) t Inl have "e0 = e" by simp
        with True Suc.prems(3) show ?thesis by simp
      next
        case (Suc k)
        with Suc.prems(1) q
        have k: "k < length (quotes (snd (swapWithRetry_loop gq sw m (i + 1) (Suc n) (s + 0.5))))"
          unfolding run by (simp add: quotes_append)
        have eq: "s + 0.5 * real j = s + 0.5 + 0.5 * real k" and eqn: "n + j = Suc n + k"
          using Suc by (simp_all add: field_simps)
        have f: "fst (swapWithRetry_try gq sw (Suc n + k) (s + 0.5 + 0.5 * real k)) = Inl e"
          using Suc.prems(2) unfolding eq eqn .
        from Suc.hyps(1) [OF d k f Suc.prems(3)] Suc q show ?thesis
          unfolding run by (simp add: quotes_append)
      qed
    qed
  qed
qed

lemma progression_strict_real:
  "sorted_wrt (<) (map (\<lambda>i. 50 + real i * 50) [0..<n])"
  by (simp add: sorted_wrt_map sorted_wrt_iff_nth_less)

subsection \<open>Evaluating a run on a sample operation\<close>

lemmas eval_simps = executeSwapWithRetry_def executeSwapWithRetry_loop.simps
  sendAndConfirmWithRetry_def sendAndConfirmWithRetry_loop.simps
  swapWithRetry_def swapWithRetry_loop.simps swapWithRetry_try_def
  always_rejects_def fails_numbered_def accepts_from_100bps_def quote_times_out_def
  quote_rejects_def swap_succeeds_def send_fails_numbered_def retriesExhausted_def
  send_confirms_third_def show_int_def show_nat.simps sublist_code

section \<open>Properties\<close>

text \<open>
  C9, as the claim states it: for every active bin the lower end of the range is strictly
  below the upper end. At \<open>activeBin = 10^20\<close>, a whole double, the doubles are 16384
  apart, \<open>activeBin - 5\<close> and \<open>activeBin + 5\<close> both round back to \<open>activeBin\<close>, and the two
  ends are equal.
\<close>

theorem calculatePositionParams_large_counterexample:
  "lowerBin (calculatePositionParams 100000000000000000000 25 (Some tight)) = 100000000000000000000
   \<and> upperBin (calculatePositionParams 100000000000000000000 25 (Some tight)) = 100000000000000000000
   \<and> \<not> lowerBin (calculatePositionParams 100000000000000000000 25 (Some tight))
       < upperBin (calculatePositionParams 100000000000000000000 25 (Some tight))"
  by (simp add: calculatePositionParams_def toDouble_def roundTiesToEven_def ulp.simps)

text \<open>
  C9, amended. For every whole active bin of magnitude at most \<open>2^53 - 20 =
  9007199254740972\<close> and each of the three strategies, \<open>calculatePositionParams\<close> returns a
  range symmetric about the active bin (the two ends add up to twice the active bin), with
  the lower end strictly below the upper end, of half-width 5, 10 or 20 bins for tight,
  medium and wide, and the result does not depend on the bin step.
\<close>

theorem calculatePositionParams_symmetric:
  assumes "\<bar>activeBin\<bar> \<le> 9007199254740972"
  shows "lowerBin (calculatePositionParams activeBin binStep (Some s))
     + upperBin (calculatePositionParams activeBin binStep (Some s)) = 2 * activeBin
   \<and> lowerBin (calculatePositionParams activeBin binStep (Some s))
       < upperBin (calculatePositionParams activeBin binStep (Some s))
   \<and> activeBin - lowerBin (calculatePositionParams activeBin binStep (Some s))
       = (case s of tight \<Rightarrow> 5 | medium \<Rightarrow> 10 | wide \<Rightarrow> 20)
   \<and> upperBin (calculatePositionParams activeBin binStep (Some s)) - activeBin
       = (case s of tight \<Rightarrow> 5 | medium \<Rightarrow> 10 | wide \<Rightarrow> 20)
   \<and> calculatePositionParams activeBin binStep (Some s)
       = calculatePositionParams activeBin binStep' (Some s)
   \<and> calculatePositionParams activeBin binStep None
       = calculatePositionParams activeBin binStep' (Some medium)"
proof -
  have r: "0 \<le> ranges s" "ranges s \<le> 20" by (cases s; simp)+
  with assms have "\<bar>activeBin - ranges s\<bar> \<le> 9007199254740992" "\<bar>activeBin + ranges s\<bar> \<le> 9007199254740992"
    by linarith+
  then have "toDouble (activeBin - ranges s) = activeBin - ranges s"
    "toDouble (activeBin + ranges s) = activeBin + ranges s"
    by (simp_all add: toDouble_exact)
  then show ?thesis
    by (cases s) (simp_all add: calculatePositionParams_def)
qed

theorem calculatePositionParams_symmetric_witness:
  "\<bar>1000::int\<bar> \<le> 9007199254740972
   \<and> calculatePositionParams 1000 25 (Some wide) = \<lparr> lowerBin = 980, upperBin = 1020 \<rparr>
   \<and> lowerBin (calculatePositionParams 1000 25 (Some wide))
       + upperBin (calculatePositionParams 1000 25 (Some wide)) = 2 * 1000
   \<and> lowerBin (calculatePositionParams 1000 25 (Some wide))
       < upperBin (calculatePositionParams 1000 25 (Some wide))"
  using calculatePositionParams_symmetric [of 1000 25 wide]
  by (simp add: calculatePositionParams_def toDouble_def roundTiesToEven_def ulp.simps)

text \<open>
  C8. For non-negative price impact and volatility, \<open>calculateDynamicSlippage\<close> returns a
  value between the base 0.5 and the cap 5.0, and raising either argument never lowers
  the result.
\<close>

theorem calculateDynamicSlippage_bounds_mono:
  "0 \<le> priceImpact \<Longrightarrow> 0 \<le> volatility \<Longrightarrow>
     0.5 \<le> calculateDynamicSlippage priceImpact volatility
   \<and> calculateDynamicSlippage priceImpact volatility \<le> 5.0
   \<and> (\<forall>priceImpact' volatility'.
         priceImpact \<le> priceImpact' \<and> volatility \<le> volatility' \<longrightarrow>
         calculateDynamicSlippage priceImpact volatility
           \<le> calculateDynamicSlippage priceImpact' volatility')"
  by (auto simp: calculateDynamicSlippage_def Let_def min_def)

theorem calculateDynamicSlippage_bounds_mono_witness:
  "(0::real) \<le> 3 \<and> (0::real) \<le> 10
   \<and> calculateDynamicSlippage 3 10 = 2
   \<and> 0.5 \<le> calculateDynamicSlippage 3 10
   \<and> calculateDynamicSlippage 3 10 \<le> 5.0
   \<and> calculateDynamicSlippage 6 20 = 4
   \<and> calculateDynamicSlippage 3 10 \<le> calculateDynamicSlippage 6 20"
  using calculateDynamicSlippage_bounds_mono [of 3 10]
  by (simp add: calculateDynamicSlippage_def)

text \<open>
  C1. With a maximum of at least one attempt, and whatever the outcomes of the wrapped
  operation are, \<open>executeSwapWithRetry\<close> invokes \<open>executeSwap\<close> at most \<open>maxRetries\<close>
  times, and \<open>sendAndConfirmWithRetry\<close> submits the transaction at most \<open>maxRetries\<close>
  times.
\<close>

theorem retry_invocations_bounded:
  assumes "1 \<le> maxRetries"
  shows "int (length (calls (snd (executeSwapWithRetry executeSwap maxRetries)))) \<le> maxRetries
       \<and> int (sends (snd (sendAndConfirmWithRetry sendAndConfirmTransaction maxRetries)))
           \<le> maxRetries"
proof -
  have "length (calls (snd (executeSwapWithRetry executeSwap maxRetries))) \<le> nat maxRetries"
    using loop_calls_bound [of executeSwap maxRetries 1 0 None]
    by (simp add: executeSwapWithRetry_def)
  moreover
  have "sends (snd (sendAndConfirmWithRetry sendAndConfirmTransaction maxRetries))
          \<le> nat maxRetries"
    using sloop_sends_bound [of sendAndConfirmTransaction maxRetries 0 0]
    by (simp add: sendAndConfirmWithRetry_def)
  ultimately show ?thesis using assms by linarith
qed

theorem retry_invocations_bounded_witness:
  "(1::int) \<le> 3
   \<and> calls (snd (executeSwapWithRetry always_rejects 3)) = [50, 75, 100]
   \<and> int (length (calls (snd (executeSwapWithRetry always_rejects 3)))) \<le> 3
   \<and> sends (snd (sendAndConfirmWithRetry send_fails_numbered 3)) = 3
   \<and> int (sends (snd (sendAndConfirmWithRetry send_fails_numbered 3))) \<le> 3"
  using retry_invocations_bounded [of 3 always_rejects send_fails_numbered]
  by (simp add: eval_simps)

text \<open>
  C2. If the wrapped operation fails on the first \<open>k - 1\<close> attempts and succeeds on
  attempt \<open>k \<le> maxRetries\<close>, \<open>executeSwapWithRetry\<close> returns the value of that attempt
  and stops: it has made exactly \<open>k\<close> invocations, of which the first \<open>k - 1\<close>
  (attempts 1 to \<open>k - 1\<close>) are the logged failures.
\<close>

theorem success_on_attempt_k:
  assumes "1 \<le> k" and "int k \<le> maxRetries"
    and "\<forall>i<k - 1. isl (executeSwap i (50 + int i * 25))"
    and "executeSwap (k - 1) (50 + int (k - 1) * 25) = Inr result"
  shows "fst (executeSwapWithRetry executeSwap maxRetries) = Inr result
       \<and> length (calls (snd (executeSwapWithRetry executeSwap maxRetries))) = k
       \<and> calls (snd (executeSwapWithRetry executeSwap maxRetries))
           = map (\<lambda>i. 50 + int i * 25) [0..<k]
       \<and> map fst (failures (snd (executeSwapWithRetry executeSwap maxRetries)))
           = map (\<lambda>i. 1 + int i) [0..<k - 1]
       \<and> length (failures (snd (executeSwapWithRetry executeSwap maxRetries))) = k - 1"
proof -
  from assms(1) have k: "Suc (k - 1) = k" by simp
  have a1: "\<forall>i<k - 1. isl (executeSwap (0 + i) (50 + (1 + int i - 1) * 25))"
    using assms(3) by simp
  have a2: "executeSwap (0 + (k - 1)) (50 + (1 + int (k - 1) - 1) * 25) = Inr result"
    using assms(4) by simp
  have a3: "1 + int (k - 1) \<le> maxRetries"
    using assms(1,2) by simp
  note run = loop_success [where op = executeSwap and le = None, OF a1 a2 a3, unfolded k]
  have len: "length (failures (snd (executeSwapWithRetry_loop executeSwap maxRetries 1 0 None)))
               = k - 1"
    using arg_cong [OF conjunct2 [OF conjunct2 [OF conjunct2 [OF run]]], of length] by simp
  from run len show ?thesis
    by (simp add: executeSwapWithRetry_def)
qed

theorem success_on_attempt_k_witness:
  "(1::nat) \<le> 3 \<and> int 3 \<le> 3
   \<and> isl (accepts_from_100bps 0 50) \<and> isl (accepts_from_100bps 1 75)
   \<and> accepts_from_100bps 2 100 = Inr ''signature''
   \<and> fst (executeSwapWithRetry accepts_from_100bps 3) = Inr ''signature''
   \<and> calls (snd (executeSwapWithRetry accepts_from_100bps 3)) = [50, 75, 100]
   \<and> length (calls (snd (executeSwapWithRetry accepts_from_100bps 3))) = 3
   \<and> length (failures (snd (executeSwapWithRetry accepts_from_100bps 3))) = 2"
proof -
  have h: "\<forall>i<(3::nat) - 1. isl (accepts_from_100bps i (50 + int i * 25))"
    by (simp add: accepts_from_100bps_def)
  have s: "accepts_from_100bps (3 - 1) (50 + int (3 - 1) * 25) = Inr ''signature''"
    by (simp add: accepts_from_100bps_def)
  have u: "upt 0 3 = [0, 1, 2]"
    by (simp add: upt_rec)
  from success_on_attempt_k [of 3 3 accepts_from_100bps "''signature''"] h s
  show ?thesis by (simp add: accepts_from_100bps_def u)
qed

text \<open>
  C3, as the claim states it: the slippage passed to the wrapped operation stays at or
  below a ceiling of 5 percent (500 basis points). Neither loop has a ceiling. With 20
  attempts that are all rejected, \<open>executeSwapWithRetry\<close> passes 525 basis points on the
  last one; with 11 attempts rejected for slippage, \<open>swapWithRetry\<close> asks for a quote at
  550 basis points.
\<close>

theorem slippage_exceeds_ceiling_counterexample:
  "calls (snd (executeSwapWithRetry always_rejects 20)) ! 19 = 525
   \<and> \<not> calls (snd (executeSwapWithRetry always_rejects 20)) ! 19 \<le> 500
   \<and> quotes (snd (swapWithRetry quote_rejects swap_succeeds 11)) ! 10 = 550
   \<and> \<not> quotes (snd (swapWithRetry quote_rejects swap_succeeds 11)) ! 10 \<le> 500"
  by (simp add: eval_simps)

text \<open>
  C3, amended. In every run the slippage grows by a fixed step from one attempt to the
  next and no ceiling is applied: attempt \<open>i + 1\<close> of \<open>executeSwapWithRetry\<close> passes
  \<open>50 + 25 i\<close> basis points, and quote request \<open>i + 1\<close> of \<open>swapWithRetry\<close> asks for
  \<open>50 + 50 i\<close> basis points (0.5 percent more each time); both sequences are strictly
  increasing.
\<close>

theorem slippage_progression:
  "calls (snd (executeSwapWithRetry executeSwap maxRetries))
     = map (\<lambda>i. 50 + int i * 25)
         [0..<length (calls (snd (executeSwapWithRetry executeSwap maxRetries)))]
   \<and> sorted_wrt (<) (calls (snd (executeSwapWithRetry executeSwap maxRetries)))
   \<and> quotes (snd (swapWithRetry getSwapQuote swap maxRetries))
     = map (\<lambda>i. 50 + real i * 50)
         [0..<length (quotes (snd (swapWithRetry getSwapQuote swap maxRetries)))]
   \<and> sorted_wrt (<) (quotes (snd (swapWithRetry getSwapQuote swap maxRetries)))"
proof -
  have c: "calls (snd (executeSwapWithRetry executeSwap maxRetries))
     = map (\<lambda>i. 50 + int i * 25)
         [0..<length (calls (snd (executeSwapWithRetry executeSwap maxRetries)))]"
    using loop_calls_progression [of executeSwap maxRetries 1 0 None]
    by (simp add: executeSwapWithRetry_def)
  have q: "quotes (snd (swapWithRetry getSwapQuote swap maxRetries))
     = map (\<lambda>i. 50 + real i * 50)
         [0..<length (quotes (snd (swapWithRetry getSwapQuote swap maxRetries)))]"
    using wloop_quotes_progression [of getSwapQuote swap maxRetries 0 0 "0.5"]
    by (simp add: swapWithRetry_def algebra_simps)
  have sc: "sorted_wrt (<) (calls (snd (executeSwapWithRetry executeSwap maxRetries)))"
    by (subst c) (rule progression_strict)
  have sq: "sorted_wrt (<) (quotes (snd (swapWithRetry getSwapQuote swap maxRetries)))"
    by (subst q) (rule progression_strict_real)
  from c q sc sq show ?thesis by blast
qed

text \<open>
  C4, as the claim states it: when every attempt fails the helper fails with an exhaustion
  error that wraps the error of the last attempt. \<open>sendAndConfirmWithRetry\<close> throws the
  error of the last attempt itself, with no wrapper.
\<close>

theorem send_rethrows_last_error_counterexample:
  "fst (sendAndConfirmWithRetry send_fails_numbered 3) = Inl (Error ''failure 3'')
   \<and> retriesExhausted 3 (Some (Error ''failure 3''))
       = Error ''All 3 attempts failed. Last error: failure 3''
   \<and> fst (sendAndConfirmWithRetry send_fails_numbered 3)
       \<noteq> Inl (retriesExhausted 3 (Some (Error ''failure 3'')))"
  by (simp add: eval_simps)

text \<open>
  C4, amended. With at least one attempt allowed: if every attempt fails,
  \<open>executeSwapWithRetry\<close> fails with the error "All N attempts failed. Last error: ..."
  built from the message of the error of the last attempt, and \<open>sendAndConfirmWithRetry\<close>
  fails with the error of the last attempt itself, not wrapped. The caller sees a failure
  in no other case: a run that ends in an error is one where every attempt failed.
\<close>

theorem all_attempts_fail:
  assumes "1 \<le> maxRetries"
  shows "((\<forall>i<nat maxRetries. isl (executeSwap i (50 + int i * 25))) \<longrightarrow>
            fst (executeSwapWithRetry executeSwap maxRetries)
              = Inl (retriesExhausted maxRetries
                  (Some (projl (executeSwap (nat maxRetries - 1) (50 + (maxRetries - 1) * 25)))))
            \<and> message (projl (fst (executeSwapWithRetry executeSwap maxRetries)))
              = ''All '' @ show_int maxRetries @ '' attempts failed. Last error: ''
                @ message (projl (executeSwap (nat maxRetries - 1) (50 + (maxRetries - 1) * 25))))
       \<and> (isl (fst (executeSwapWithRetry executeSwap maxRetries)) \<longrightarrow>
            (\<forall>i<nat maxRetries. isl (executeSwap i (50 + int i * 25))))
       \<and> ((\<forall>i<nat maxRetries. isl (sendAndConfirmTransaction i)) \<longrightarrow>
            fst (sendAndConfirmWithRetry sendAndConfirmTransaction maxRetries)
              = Inl (projl (sendAndConfirmTransaction (nat maxRetries - 1))))
       \<and> (isl (fst (sendAndConfirmWithRetry sendAndConfirmTransaction maxRetries)) \<longrightarrow>
            (\<forall>i<nat maxRetries. isl (sendAndConfirmTransaction i)))"
proof (intro conjI impI)
  assume h: "\<forall>i<nat maxRetries. isl (executeSwap i (50 + int i * 25))"
  have a1: "\<forall>i<nat (maxRetries + 1 - 1). isl (executeSwap (0 + i) (50 + (1 + int i - 1) * 25))"
    using h by simp
  note run = loop_all_fail [where op = executeSwap and le = None, OF a1]
  have n: "nat (maxRetries - 1) = nat maxRetries - 1" by simp
  show r: "fst (executeSwapWithRetry executeSwap maxRetries)
           = Inl (retriesExhausted maxRetries
                   (Some (projl (executeSwap (nat maxRetries - 1) (50 + (maxRetries - 1) * 25)))))"
    using conjunct1 [OF run] assms by (simp add: executeSwapWithRetry_def n)
  show "message (projl (fst (executeSwapWithRetry executeSwap maxRetries)))
          = ''All '' @ show_int maxRetries @ '' attempts failed. Last error: ''
            @ message (projl (executeSwap (nat maxRetries - 1) (50 + (maxRetries - 1) * 25)))"
    unfolding r by (simp add: retriesExhausted_def)
next
  assume "isl (fst (executeSwapWithRetry executeSwap maxRetries))"
  then obtain err where "fst (executeSwapWithRetry_loop executeSwap maxRetries 1 0 None) = Inl err"
    by (cases "fst (executeSwapWithRetry executeSwap maxRetries)")
       (simp_all add: executeSwapWithRetry_def)
  from loop_failure_all_failed [OF this]
  show "\<forall>i<nat maxRetries. isl (executeSwap i (50 + int i * 25))"
    by simp
next
  assume h: "\<forall>i<nat maxRetries. isl (sendAndConfirmTransaction i)"
  have a2: "\<forall>i<nat (maxRetries - 0). isl (sendAndConfirmTransaction (0 + i))"
    using h by simp
  have lt: "0 < maxRetries" using assms by simp
  show "fst (sendAndConfirmWithRetry sendAndConfirmTransaction maxRetries)
           = Inl (projl (sendAndConfirmTransaction (nat maxRetries - 1)))"
    using sloop_all_fail [where tx = sendAndConfirmTransaction, OF lt a2]
    by (simp add: sendAndConfirmWithRetry_def)
next
  assume "isl (fst (sendAndConfirmWithRetry sendAndConfirmTransaction maxRetries))"
  then obtain err where
    "fst (sendAndConfirmWithRetry_loop sendAndConfirmTransaction maxRetries 0 0) = Inl err"
    by (cases "fst (sendAndConfirmWithRetry sendAndConfirmTransaction maxRetries)")
       (simp_all add: sendAndConfirmWithRetry_def)
  from sloop_failure_all_failed [OF this]
  show "\<forall>i<nat maxRetries. isl (sendAndConfirmTransaction i)"
    by simp
qed

theorem all_attempts_fail_witness:
  "(1::int) \<le> 3
   \<and> isl (fails_numbered 0 50) \<and> isl (fails_numbered 1 75) \<and> isl (fails_numbered 2 100)
   \<and> isl (send_fails_numbered 0) \<and> isl (send_fails_numbered 1) \<and> isl (send_fails_numbered 2)
   \<and> fails_numbered 2 100 = Inl (Error ''failure 3'')
   \<and> send_fails_numbered 2 = Inl (Error ''failure 3'')
   \<and> fst (executeSwapWithRetry fails_numbered 3)
       = Inl (Error ''All 3 attempts failed. Last error: failure 3'')
   \<and> isl (fst (executeSwapWithRetry fails_numbered 3))
   \<and> fst (sendAndConfirmWithRetry send_fails_numbered 3) = Inl (Error ''failure 3'')
   \<and> isl (fst (sendAndConfirmWithRetry send_fails_numbered 3))"
proof -
  have h1: "\<forall>i<nat 3. isl (fails_numbered i (50 + int i * 25))"
    by (simp add: fails_numbered_def)
  have h2: "\<forall>i<nat 3. isl (send_fails_numbered i)"
    by (simp add: send_fails_numbered_def)
  from all_attempts_fail [of 3 fails_numbered send_fails_numbered] h1 h2
  show ?thesis
    by (simp add: fails_numbered_def send_fails_numbered_def retriesExhausted_def
          show_int_def show_nat.simps)
qed

text \<open>
  C5, as the claim states it: every kind of failure leads to another attempt. In
  \<open>swapWithRetry\<close> a quote request that times out is thrown to the caller after the first
  attempt, with two of the three attempts unused.
\<close>

theorem non_slippage_error_not_retried_counterexample:
  "fst (swapWithRetry quote_times_out swap_succeeds 3) = Inl (Error ''Network timeout'')
   \<and> quotes (snd (swapWithRetry quote_times_out swap_succeeds 3)) = [50]
   \<and> length (quotes (snd (swapWithRetry quote_times_out swap_succeeds 3))) < 3"
  by (simp add: eval_simps)

text \<open>
  C5, amended. \<open>executeSwapWithRetry\<close> and \<open>sendAndConfirmWithRetry\<close> treat every failure
  alike: whatever the errors are, a run ends in an error only after \<open>maxRetries\<close>
  invocations. \<open>swapWithRetry\<close> does not: when an attempt (the quote request or the swap)
  fails with a message that does not mention slippage in any spelling, such as a network
  error or a timeout, that error goes to the caller and the attempt is the last of the run.
\<close>

theorem failures_retried_until_exhaustion:
  "(fst (executeSwapWithRetry executeSwap maxRetries) = Inl err \<longrightarrow>
      length (calls (snd (executeSwapWithRetry executeSwap maxRetries))) = nat maxRetries
      \<and> (\<exists>last. err = retriesExhausted maxRetries last))
   \<and> (fst (sendAndConfirmWithRetry sendAndConfirmTransaction maxRetries) = Inl err' \<longrightarrow>
      sends (snd (sendAndConfirmWithRetry sendAndConfirmTransaction maxRetries)) = nat maxRetries
      \<and> sendAndConfirmTransaction (nat maxRetries - 1) = Inl err')
   \<and> (j < length (quotes (snd (swapWithRetry getSwapQuote swap maxRetries)))
        \<and> (getSwapQuote j (50 + 50 * real j) = Inl e
             \<or> (\<exists>quote. getSwapQuote j (50 + 50 * real j) = Inr quote \<and> swap j quote = Inl e))
        \<and> \<not> sublist ''slippage'' (lower_case (message e)) \<longrightarrow>
      fst (swapWithRetry getSwapQuote swap maxRetries) = Inl e
      \<and> length (quotes (snd (swapWithRetry getSwapQuote swap maxRetries))) = Suc j)"
proof (intro conjI impI)
  assume "fst (executeSwapWithRetry executeSwap maxRetries) = Inl err"
  then have f: "fst (executeSwapWithRetry_loop executeSwap maxRetries 1 0 None) = Inl err"
    by (simp add: executeSwapWithRetry_def)
  note r = loop_failure_exhausted [OF f]
  from r show "length (calls (snd (executeSwapWithRetry executeSwap maxRetries))) = nat maxRetries"
    by (simp add: executeSwapWithRetry_def)
  from r show "\<exists>last. err = retriesExhausted maxRetries last"
    by simp
next
  assume "fst (sendAndConfirmWithRetry sendAndConfirmTransaction maxRetries) = Inl err'"
  then have f: "fst (sendAndConfirmWithRetry_loop sendAndConfirmTransaction maxRetries 0 0) = Inl err'"
    by (simp add: sendAndConfirmWithRetry_def)
  note r = sloop_failure_exhausted [OF f]
  from r show "sends (snd (sendAndConfirmWithRetry sendAndConfirmTransaction maxRetries))
                 = nat maxRetries"
    by (simp add: sendAndConfirmWithRetry_def)
  from r show "sendAndConfirmTransaction (nat maxRetries - 1) = Inl err'"
    by simp
next
  assume a: "j < length (quotes (snd (swapWithRetry getSwapQuote swap maxRetries)))
        \<and> (getSwapQuote j (50 + 50 * real j) = Inl e
             \<or> (\<exists>quote. getSwapQuote j (50 + 50 * real j) = Inr quote \<and> swap j quote = Inl e))
        \<and> \<not> sublist ''slippage'' (lower_case (message e))"
  have s: "(0.5 + 0.5 * real j) * 100 = 50 + 50 * real j" by simp
  from a have j: "j < length (quotes (snd (swapWithRetry_loop getSwapQuote swap maxRetries 0 0 0.5)))"
    by (simp add: swapWithRetry_def)
  from a have f: "fst (swapWithRetry_try getSwapQuote swap (0 + j) (0.5 + 0.5 * real j)) = Inl e"
    unfolding try_failure_iff s by simp
  from a have n: "\<not> sublist ''slippage'' (message e)"
    by (simp add: no_slippage_any_case)
  note r = wloop_throw_last [OF j f n]
  from r show "fst (swapWithRetry getSwapQuote swap maxRetries) = Inl e"
    by (simp add: swapWithRetry_def)
  from r show "length (quotes (snd (swapWithRetry getSwapQuote swap maxRetries))) = Suc j"
    by (simp add: swapWithRetry_def)
qed

theorem failures_retried_until_exhaustion_witness:
  "fst (executeSwapWithRetry always_rejects 3)
     = Inl (Error ''All 3 attempts failed. Last error: Slippage tolerance exceeded'')
   \<and> length (calls (snd (executeSwapWithRetry always_rejects 3))) = nat 3
   \<and> fst (sendAndConfirmWithRetry send_fails_numbered 3) = Inl (Error ''failure 3'')
   \<and> sends (snd (sendAndConfirmWithRetry send_fails_numbered 3)) = nat 3
   \<and> 0 < length (quotes (snd (swapWithRetry quote_times_out swap_succeeds 3)))
   \<and> quote_times_out 0 (50 + 50 * real 0) = Inl (Error ''Network timeout'')
   \<and> \<not> sublist ''slippage'' (lower_case ''Network timeout'')
   \<and> fst (swapWithRetry quote_times_out swap_succeeds 3) = Inl (Error ''Network timeout'')
   \<and> length (quotes (snd (swapWithRetry quote_times_out swap_succeeds 3))) = Suc 0"
proof -
  have x: "fst (executeSwapWithRetry always_rejects 3)
     = Inl (Error ''All 3 attempts failed. Last error: Slippage tolerance exceeded'')"
    by (simp add: eval_simps)
  have s: "fst (sendAndConfirmWithRetry send_fails_numbered 3) = Inl (Error ''failure 3'')"
    by (simp add: eval_simps)
  have l: "0 < length (quotes (snd (swapWithRetry quote_times_out swap_succeeds 3)))"
    by (simp add: eval_simps)
  have t: "quote_times_out 0 (50 + 50 * real 0) = Inl (Error ''Network timeout'')"
    by (simp add: quote_times_out_def)
  have n: "\<not> sublist ''slippage'' (lower_case ''Network timeout'')"
    by (simp add: lower_case_def lower_case_char_def sublist_code)
  note th = failures_retried_until_exhaustion
    [where executeSwap = always_rejects and maxRetries = 3
       and err = "Error ''All 3 attempts failed. Last error: Slippage tolerance exceeded''"
       and sendAndConfirmTransaction = send_fails_numbered and err' = "Error ''failure 3''"
       and getSwapQuote = quote_times_out and swap = swap_succeeds
       and j = 0 and e = "Error ''Network timeout''"]
  from th x s l t n show ?thesis by simp
qed

text \<open>
  C6, as the claim states it: with three attempts that all fail, the slippage values are
  0.5, 1.0 and 1.5 percent (50, 100 and 150 basis points). \<open>executeSwapWithRetry\<close> passes
  50, 75 and 100 basis points.
\<close>

theorem scenario_tolerances_counterexample:
  "calls (snd (executeSwapWithRetry always_rejects 3)) = [50, 75, 100]
   \<and> calls (snd (executeSwapWithRetry always_rejects 3)) \<noteq> [50, 100, 150]"
  by (simp add: eval_simps)

text \<open>
  C6, amended. With \<open>maxRetries = 3\<close> and an operation that fails on all three attempts,
  \<open>executeSwapWithRetry\<close> makes exactly three invocations, with slippage 50, 75 and 100
  basis points (0.5, 0.75 and 1 percent), waits twice, and fails with the exhaustion error
  built from the failure of the third attempt.
\<close>

theorem scenario_three_failures:
  assumes "isl (executeSwap 0 50)" and "isl (executeSwap 1 75)" and "isl (executeSwap 2 100)"
  shows "calls (snd (executeSwapWithRetry executeSwap 3)) = [50, 75, 100]
       \<and> length (calls (snd (executeSwapWithRetry executeSwap 3))) = 3
       \<and> waits (snd (executeSwapWithRetry executeSwap 3)) = [2000, 2000]
       \<and> fst (executeSwapWithRetry executeSwap 3)
           = Inl (retriesExhausted 3 (Some (projl (executeSwap 2 100))))"
proof -
  have u: "upt 0 3 = [0, 1, 2]" by (simp add: upt_rec)
  have a: "\<forall>i<nat (3 + 1 - 1). isl (executeSwap (0 + i) (50 + (1 + int i - 1) * 25))"
  proof (intro allI impI)
    fix i :: nat assume "i < nat (3 + 1 - 1)"
    then have "i = 0 \<or> i = 1 \<or> i = 2" by auto
    with assms show "isl (executeSwap (0 + i) (50 + (1 + int i - 1) * 25))" by auto
  qed
  from loop_all_fail [where op = executeSwap and le = None, OF a]
  show ?thesis
    by (simp add: executeSwapWithRetry_def u numeral_eq_Suc)
qed

theorem scenario_three_failures_witness:
  "isl (fails_numbered 0 50) \<and> isl (fails_numbered 1 75) \<and> isl (fails_numbered 2 100)
   \<and> fails_numbered 2 100 = Inl (Error ''failure 3'')
   \<and> calls (snd (executeSwapWithRetry fails_numbered 3)) = [50, 75, 100]
   \<and> length (calls (snd (executeSwapWithRetry fails_numbered 3))) = 3
   \<and> waits (snd (executeSwapWithRetry fails_numbered 3)) = [2000, 2000]
   \<and> fst (executeSwapWithRetry fails_numbered 3)
       = Inl (Error ''All 3 attempts failed. Last error: failure 3'')"
  using scenario_three_failures [of fails_numbered]
  by (simp add: fails_numbered_def retriesExhausted_def show_int_def show_nat.simps)

text \<open>
  C7. The 2000 ms wait happens only between two consecutive attempts. For every behaviour
  of the wrapped operation and every \<open>maxRetries\<close>, in a run of \<open>executeSwapWithRetry\<close>
  or \<open>sendAndConfirmWithRetry\<close>:
  \<^item> leaving the console lines out, the run is its invocations with one wait between each
    two neighbours, so nothing follows the last invocation;
  \<^item> an attempt on which the operation succeeds is the last invocation of the run, and no
    attempt has a number above \<open>maxRetries\<close>: there is no wait after a success and none
    after the failure of attempt \<open>maxRetries\<close>;
  \<^item> the number of waits is the number of attempts made on which the operation failed
    and whose number is below \<open>maxRetries\<close> (which is also the number of failures logged
    with such a number).
\<close>

theorem delay_only_between_attempts:
  "actions (snd (executeSwapWithRetry executeSwap maxRetries))
     = intersperse (Wait 2000)
         (map Call (calls (snd (executeSwapWithRetry executeSwap maxRetries))))
   \<and> calls (snd (executeSwapWithRetry executeSwap maxRetries))
     = map (\<lambda>i. 50 + int i * 25)
         [0..<length (calls (snd (executeSwapWithRetry executeSwap maxRetries)))]
   \<and> (\<forall>i<length (calls (snd (executeSwapWithRetry executeSwap maxRetries))).
         int (Suc i) \<le> maxRetries
         \<and> (\<not> isl (executeSwap i (50 + int i * 25)) \<longrightarrow>
              Suc i = length (calls (snd (executeSwapWithRetry executeSwap maxRetries)))))
   \<and> length (waits (snd (executeSwapWithRetry executeSwap maxRetries)))
     = length (filter (\<lambda>i. isl (executeSwap i (50 + int i * 25)) \<and> int (Suc i) < maxRetries)
                [0..<length (calls (snd (executeSwapWithRetry executeSwap maxRetries)))])
   \<and> length (waits (snd (executeSwapWithRetry executeSwap maxRetries)))
     = length (filter (\<lambda>f. fst f < maxRetries)
                (failures (snd (executeSwapWithRetry executeSwap maxRetries))))
   \<and> actions (snd (sendAndConfirmWithRetry sendAndConfirmTransaction maxRetries))
     = intersperse (Wait 2000)
         (replicate (sends (snd (sendAndConfirmWithRetry sendAndConfirmTransaction maxRetries)))
            Send)
   \<and> (\<forall>i<sends (snd (sendAndConfirmWithRetry sendAndConfirmTransaction maxRetries)).
         int (Suc i) \<le> maxRetries
         \<and> (\<not> isl (sendAndConfirmTransaction i) \<longrightarrow>
              Suc i = sends (snd (sendAndConfirmWithRetry sendAndConfirmTransaction maxRetries))))
   \<and> length (waits (snd (sendAndConfirmWithRetry sendAndConfirmTransaction maxRetries)))
     = length (filter (\<lambda>i. isl (sendAndConfirmTransaction i) \<and> int (Suc i) < maxRetries)
                [0..<sends (snd (sendAndConfirmWithRetry sendAndConfirmTransaction maxRetries))])
   \<and> length (waits (snd (sendAndConfirmWithRetry sendAndConfirmTransaction maxRetries)))
     = length (filter (\<lambda>f. fst f < maxRetries)
                (failures (snd (sendAndConfirmWithRetry sendAndConfirmTransaction maxRetries))))"
proof -
  let ?run = "executeSwapWithRetry executeSwap maxRetries"
  let ?srun = "sendAndConfirmWithRetry sendAndConfirmTransaction maxRetries"
  note a = loop_actions [of executeSwap maxRetries 1 0 None, folded executeSwapWithRetry_def]
  note sa = sloop_actions [of sendAndConfirmTransaction maxRetries 0 0,
      folded sendAndConfirmWithRetry_def]
  have p: "calls (snd ?run) = map (\<lambda>i. 50 + int i * 25) [0..<length (calls (snd ?run))]"
    using loop_calls_progression [of executeSwap maxRetries 1 0 None]
    by (simp add: executeSwapWithRetry_def)
  have b: "length (calls (snd ?run)) \<le> nat maxRetries"
    using loop_calls_bound [of executeSwap maxRetries 1 0 None]
    by (simp add: executeSwapWithRetry_def)
  have l: "\<forall>i<length (calls (snd ?run)).
         int (Suc i) \<le> maxRetries
         \<and> (\<not> isl (executeSwap i (50 + int i * 25)) \<longrightarrow> Suc i = length (calls (snd ?run)))"
  proof (intro allI impI conjI)
    fix i assume i: "i < length (calls (snd ?run))"
    with b show "int (Suc i) \<le> maxRetries" by linarith
    assume "\<not> isl (executeSwap i (50 + int i * 25))"
    with i show "Suc i = length (calls (snd ?run))"
      using loop_success_last [of i executeSwap maxRetries 1 0 None]
      by (simp add: executeSwapWithRetry_def)
  qed
  have w: "length (waits (snd ?run))
     = length (filter (\<lambda>i. isl (executeSwap i (50 + int i * 25)) \<and> int (Suc i) < maxRetries)
                [0..<length (calls (snd ?run))])"
    using loop_waits_count [of executeSwap maxRetries 1 0 None]
    by (simp add: executeSwapWithRetry_def)
  have sb: "sends (snd ?srun) \<le> nat maxRetries"
    using sloop_sends_bound [of sendAndConfirmTransaction maxRetries 0 0]
    by (simp add: sendAndConfirmWithRetry_def)
  have sl: "\<forall>i<sends (snd ?srun).
         int (Suc i) \<le> maxRetries
         \<and> (\<not> isl (sendAndConfirmTransaction i) \<longrightarrow> Suc i = sends (snd ?srun))"
  proof (intro allI impI conjI)
    fix i assume i: "i < sends (snd ?srun)"
    with sb show "int (Suc i) \<le> maxRetries" by linarith
    assume "\<not> isl (sendAndConfirmTransaction i)"
    with i show "Suc i = sends (snd ?srun)"
      using sloop_success_last [of i sendAndConfirmTransaction maxRetries 0 0]
      by (simp add: sendAndConfirmWithRetry_def)
  qed
  have sw: "length (waits (snd ?srun))
     = length (filter (\<lambda>i. isl (sendAndConfirmTransaction i) \<and> int (Suc i) < maxRetries)
                [0..<sends (snd ?srun)])"
    using sloop_waits_count [of sendAndConfirmTransaction maxRetries 0 0]
    by (simp add: sendAndConfirmWithRetry_def)
  from a sa p l w sl sw show ?thesis by blast
qed

theorem delay_only_between_attempts_witness:
  "isl (accepts_from_100bps 0 50) \<and> isl (accepts_from_100bps 1 75)
   \<and> \<not> isl (accepts_from_100bps 2 100)
   \<and> actions (snd (executeSwapWithRetry accepts_from_100bps 5))
       = [Call 50, Wait 2000, Call 75, Wait 2000, Call 100]
   \<and> length (calls (snd (executeSwapWithRetry accepts_from_100bps 5))) = 3
   \<and> length (waits (snd (executeSwapWithRetry accepts_from_100bps 5))) = 2
   \<and> isl (send_confirms_third 0) \<and> isl (send_confirms_third 1)
   \<and> \<not> isl (send_confirms_third 2)
   \<and> actions (snd (sendAndConfirmWithRetry send_confirms_third 5))
       = [Send, Wait 2000, Send, Wait 2000, Send]
   \<and> sends (snd (sendAndConfirmWithRetry send_confirms_third 5)) = 3
   \<and> length (waits (snd (sendAndConfirmWithRetry send_confirms_third 5))) = 2"
proof -
  have c: "calls (snd (executeSwapWithRetry accepts_from_100bps 5)) = [50, 75, 100]"
    by (simp add: eval_simps)
  have s: "sends (snd (sendAndConfirmWithRetry send_confirms_third 5)) = 3"
    by (simp add: eval_simps send_confirms_third_def)
  have u: "upt 0 3 = [0, 1, 2]" by (simp add: upt_rec)
  have r: "replicate 3 Send = [Send, Send, Send]" by (simp add: numeral_eq_Suc)
  note th = delay_only_between_attempts [of accepts_from_100bps 5 send_confirms_third,
      unfolded c s]
  have a1: "actions (snd (executeSwapWithRetry accepts_from_100bps 5))
       = [Call 50, Wait 2000, Call 75, Wait 2000, Call 100]"
    using th by simp
  have w1: "length (waits (snd (executeSwapWithRetry accepts_from_100bps 5))) = 2"
    using conjunct1 [OF conjunct2 [OF conjunct2 [OF conjunct2 [OF th]]]]
    by (simp add: accepts_from_100bps_def u)
  have a2: "actions (snd (sendAndConfirmWithRetry send_confirms_third 5))
       = [Send, Wait 2000, Send, Wait 2000, Send]"
    using th by (simp add: r)
  have w2: "length (waits (snd (sendAndConfirmWithRetry send_confirms_third 5))) = 2"
    using conjunct1 [OF conjunct2 [OF conjunct2 [OF conjunct2 [OF conjunct2
          [OF conjunct2 [OF conjunct2 [OF conjunct2 [OF th]]]]]]]]
    by (simp add: send_confirms_third_def u)
  from a1 w1 a2 w2 c s show ?thesis
    by (simp add: accepts_from_100bps_def send_confirms_third_def)
qed

text \<open>
  C10. Called with \<open>maxRetries\<close> below 1, \<open>executeSwapWithRetry\<close> does not invoke the
  wrapped operation at all and still throws the exhaustion error, built with \<open>lastError\<close>
  still \<open>null\<close>: its message ends in "Last error: undefined".
\<close>

theorem no_attempt_below_one:
  "maxRetries < 1 \<Longrightarrow>
     executeSwapWithRetry executeSwap maxRetries = (Inl (retriesExhausted maxRetries None), [])
   \<and> calls (snd (executeSwapWithRetry executeSwap maxRetries)) = []
   \<and> message (retriesExhausted maxRetries None)
       = ''All '' @ show_int maxRetries @ '' attempts failed. Last error: undefined''"
  by (simp add: executeSwapWithRetry_def loop_done retriesExhausted_def)

theorem no_attempt_below_one_witness:
  "(0::int) < 1
   \<and> executeSwapWithRetry accepts_from_100bps 0
       = (Inl (Error ''All 0 attempts failed. Last error: undefined''), [])
   \<and> calls (snd (executeSwapWithRetry accepts_from_100bps 0)) = []
   \<and> retriesExhausted 0 None = Error ''All 0 attempts failed. Last error: undefined''"
  using no_attempt_below_one [of 0 accepts_from_100bps]
  by (simp add: retriesExhausted_def show_int_def show_nat.simps)

end
